theory Spec2Isabelle
  imports Main "HOL-Library.Word"
begin

unbundle bit_operations_syntax

section \<open>Bytes, C strings and the character classes of the C locale\<close>

text \<open>
  A C \<open>char\<close> is an Isabelle \<open>char\<close> (one byte).  A buffer is a list of bytes; the C
  string held in a buffer ends before its first NUL byte.
\<close>

definition NUL :: char where
  "NUL = CHR 0x00"

definition CR :: char where
  "CR = CHR 0x0D"

definition LF :: char where
  "LF = CHR 0x0A"

definition DQUOTE :: char where
  "DQUOTE = CHR 0x22"

definition CRLF :: string where
  "CRLF = [CR, LF]"

definition code :: "char \<Rightarrow> nat" where
  "code c = of_char c"

definition cstr :: "string \<Rightarrow> string" where
  "cstr buf = takeWhile (\<lambda>c. c \<noteq> NUL) buf"

definition isdigit_c :: "char \<Rightarrow> bool" where
  "isdigit_c c = (48 \<le> code c \<and> code c \<le> 57)"

definition isupper_c :: "char \<Rightarrow> bool" where
  "isupper_c c = (65 \<le> code c \<and> code c \<le> 90)"

definition islower_c :: "char \<Rightarrow> bool" where
  "islower_c c = (97 \<le> code c \<and> code c \<le> 122)"

definition isalnum_c :: "char \<Rightarrow> bool" where
  "isalnum_c c = (isdigit_c c \<or> isupper_c c \<or> islower_c c)"

definition isxdigit_c :: "char \<Rightarrow> bool" where
  "isxdigit_c c = (isdigit_c c \<or> (65 \<le> code c \<and> code c \<le> 70) \<or> (97 \<le> code c \<and> code c \<le> 102))"

definition tolower_c :: "char \<Rightarrow> char" where
  "tolower_c c = (if isupper_c c then char_of (code c + 32) else c)"

section \<open>URL codec (uhttpd-utils.c)\<close>

text \<open>
  The macro \<open>hex(x)\<close> of \<open>uh_urldecode\<close>, on the integer value of the byte.
\<close>

definition hex :: "char \<Rightarrow> int" where
  "hex x = (if code x \<le> 57 then int (code x) - 48
            else if code x \<le> 70 then int (code x) - 65 + 10
            else int (code x) - 97 + 10)"

text \<open>
  \<open>uh_urldecode(buf, blen, src, slen)\<close>: \<open>src\<close> is the list of the \<open>slen\<close> source bytes,
  the accumulator is what has been written to \<open>buf\<close> so far (\<open>len\<close> is its length).  The
  result pairs the return value (the decoded length, \<open>-1\<close> on overflow, \<open>-2\<close> on a
  malformed escape) with the bytes written.
\<close>

fun urldecode_loop :: "int \<Rightarrow> string \<Rightarrow> string \<Rightarrow> int \<times> string" where
  "urldecode_loop blen buf [] = (int (length buf), buf)"
| "urldecode_loop blen buf (c # cs) =
     (if \<not> int (length buf) < blen then (- 1, buf)
      else if c = CHR ''%'' then
        (case cs of
           h1 # h2 # rest \<Rightarrow>
             if isxdigit_c h1 \<and> isxdigit_c h2
             then urldecode_loop blen (buf @ [char_of (16 * hex h1 + hex h2)]) rest
             else (- 2, buf)
         | _ \<Rightarrow> (- 2, buf))
      else urldecode_loop blen (buf @ [c]) cs)"

definition uh_urldecode :: "int \<Rightarrow> string \<Rightarrow> int \<times> string" where
  "uh_urldecode blen src = urldecode_loop blen [] src"

text \<open>The table \<open>hex[] = "0123456789abcdef"\<close> of \<open>uh_urlencode\<close>.\<close>

definition hexdigit :: "nat \<Rightarrow> char" where
  "hexdigit n = ''0123456789abcdef'' ! (n mod 16)"

definition unreserved :: "char \<Rightarrow> bool" where
  "unreserved c = (isalnum_c c \<or> c = CHR ''-'' \<or> c = CHR ''_'' \<or> c = CHR ''.'' \<or> c = CHR ''~'')"

fun urlencode_loop :: "int \<Rightarrow> string \<Rightarrow> string \<Rightarrow> int \<times> string" where
  "urlencode_loop blen buf [] = (int (length buf), buf)"
| "urlencode_loop blen buf (c # cs) =
     (if \<not> int (length buf) < blen then (- 1, buf)
      else if unreserved c then urlencode_loop blen (buf @ [c]) cs
      else if int (length buf) + 3 \<le> blen
      then urlencode_loop blen
             (buf @ [CHR ''%'', hexdigit (code c div 16), hexdigit (code c)]) cs
      else (- 1, buf))"

definition uh_urlencode :: "int \<Rightarrow> string \<Rightarrow> int \<times> string" where
  "uh_urlencode blen src = urlencode_loop blen [] src"

text \<open>
  The two properties of the encoder's output: \<open>rfc3986_unreserved\<close> is the RFC 3986
  unreserved set, \<open>urlencode_alphabet\<close> adds the percent sign, and \<open>escaped_ok\<close> says
  that every percent sign is followed by two lowercase hexadecimal digits and every other
  byte is unreserved.
\<close>

definition rfc3986_unreserved :: "char set" where
  "rfc3986_unreserved = set ''ABCDEFGHIJKLMNOPQRSTUVWXYZabcdefghijklmnopqrstuvwxyz0123456789-_.~''"

definition urlencode_alphabet :: "char set" where
  "urlencode_alphabet = insert (CHR ''%'') rfc3986_unreserved"

definition lowerhex :: "char \<Rightarrow> bool" where
  "lowerhex c = (isdigit_c c \<or> (97 \<le> code c \<and> code c \<le> 102))"

fun escaped_ok :: "string \<Rightarrow> bool" where
  "escaped_ok [] = True"
| "escaped_ok (c # cs) =
     (if c = CHR ''%''
      then (case cs of a # b # rest \<Rightarrow> lowerhex a \<and> lowerhex b \<and> escaped_ok rest | _ \<Rightarrow> False)
      else unreserved c \<and> escaped_ok cs)"

section \<open>Base64 decoder (uhttpd-utils.c)\<close>

text \<open>
  The value \<open>cin\<close> that \<open>uh_b64decode\<close> gives a source byte, \<open>None\<close> where the
  loop takes \<open>continue\<close>.
\<close>

definition b64_value :: "char \<Rightarrow> 32 word option" where
  "b64_value c =
     (if isdigit_c c then Some (of_nat (code c - 48 + 52))
      else if isupper_c c then Some (of_nat (code c - 65))
      else if islower_c c then Some (of_nat (code c - 97 + 26))
      else if c = CHR ''+'' then Some 62
      else if c = CHR ''/'' then Some 63
      else if c = CHR ''='' then Some 0
      else None)"

definition byte_of :: "32 word \<Rightarrow> char" where
  "byte_of x = char_of (uint x)"

text \<open>
  The loop of \<open>uh_b64decode\<close>: \<open>i\<close> is the source index, \<open>cout\<close> the 32-bit
  accumulator, \<open>buf\<close> the bytes written so far (\<open>len\<close> is its length); the last
  argument holds the source bytes from index \<open>i\<close> on.
\<close>

fun b64_loop :: "int \<Rightarrow> nat \<Rightarrow> 32 word \<Rightarrow> string \<Rightarrow> string \<Rightarrow> string" where
  "b64_loop blen i cout buf [] = buf"
| "b64_loop blen i cout buf (c # cs) =
     (case b64_value c of
        None \<Rightarrow> b64_loop blen (i + 1) cout buf cs
      | Some cin \<Rightarrow>
          (let cout' = push_bit 6 cout OR cin in
           if i mod 4 = 3 then
             (if int (length buf) + 3 < blen
              then b64_loop blen (i + 1) cout'
                     (buf @ [byte_of (drop_bit 16 cout'), byte_of (drop_bit 8 cout'), byte_of cout']) cs
              else buf)
           else b64_loop blen (i + 1) cout' buf cs))"

text \<open>
  \<open>uh_b64decode(buf, blen, src, slen)\<close>: the loop runs over the indices \<open>0..slen\<close> of the
  C string at \<open>src\<close> and stops at its NUL.  The result pairs the return value with the
  bytes written to \<open>buf\<close>, the terminating NUL included.
\<close>

definition uh_b64decode :: "int \<Rightarrow> string \<Rightarrow> int \<Rightarrow> int \<times> string" where
  "uh_b64decode blen src slen =
     (let buf = b64_loop blen 0 0 [] (take (nat (slen + 1)) (cstr src))
      in (int (length buf) + 1, buf @ [NUL]))"

section \<open>Formatting helpers of the C library\<close>

text \<open>
  \<open>printf\<close>'s \<open>%X\<close> and \<open>%x\<close> of a non-negative number (the value of the
  \<open>unsigned int\<close>): the digits in base 16, most significant first, no leading zeros;
  the argument is the digit table.
\<close>

function hex_digits :: "string \<Rightarrow> int \<Rightarrow> string" where
  "hex_digits tab n =
     (if n < 16 then [tab ! nat n] else hex_digits tab (n div 16) @ [tab ! nat (n mod 16)])"
  by pat_completeness auto
termination
  by (relation "measure (\<lambda>(tab, n). nat n)") auto

declare hex_digits.simps [simp del]

definition fmt_X :: "int \<Rightarrow> string" where
  "fmt_X n = hex_digits ''0123456789ABCDEF'' n"

definition fmt_x :: "int \<Rightarrow> string" where
  "fmt_x n = hex_digits ''0123456789abcdef'' n"

text \<open>
  \<open>snprintf(buf, size, ...)\<close> for the formatted text \<open>s\<close>: the C string left in \<open>buf\<close>
  (at most \<open>size - 1\<close> bytes, then a NUL) and the return value, which is the length of
  the untruncated text.
\<close>

definition c_snprintf :: "nat \<Rightarrow> string \<Rightarrow> string \<times> int" where
  "c_snprintf n s = (take (n - 1) s, int (length s))"

text \<open>
  Reading \<open>len\<close> bytes from the address of a buffer that holds the C string \<open>content\<close>:
  past the string come its NUL and then whatever memory follows (\<open>junk\<close>).
\<close>

definition buf_read :: "string \<Rightarrow> string \<Rightarrow> int \<Rightarrow> string" where
  "buf_read content junk len = take (nat len) (content @ NUL # junk)"

section \<open>The environment: file system, C library, build constants\<close>

text \<open>
  \<open>struct stat\<close>, with the fields the server reads.  The mode bits are those of
  \<open>sys/stat.h\<close>.
\<close>

record stat =
  st_mode :: "32 word"
  st_ino :: int
  st_size :: int
  st_mtime :: int

definition S_IFREG :: "32 word" where
  "S_IFREG = 0x8000"

definition S_IFDIR :: "32 word" where
  "S_IFDIR = 0x4000"

definition S_IROTH :: "32 word" where
  "S_IROTH = 0x4"

definition S_IXOTH :: "32 word" where
  "S_IXOTH = 0x1"

definition has_bit :: "32 word \<Rightarrow> 32 word \<Rightarrow> bool" where
  "has_bit m b = (m AND b \<noteq> 0)"

text \<open>
  What the server takes from outside its own source: the system calls, the C library and
  the constants of \<open>limits.h\<close> and \<open>uhttpd.h\<close>.  \<open>w_stat p\<close> is \<open>None\<close> where
  \<open>stat(p, _)\<close> fails; \<open>w_realpath\<close> and \<open>w_getcwd\<close> likewise; \<open>w_open\<close> is the
  descriptor \<open>open(p, O_RDONLY)\<close> returns; \<open>w_reads p\<close> lists what the successive
  \<open>read\<close> calls on the opened file deliver (the pump stops at the first empty one);
  \<open>w_date2unix\<close> is \<open>strptime\<close> followed by \<open>timegm\<close>, \<open>w_strftime\<close> is
  \<open>gmtime\<close> followed by \<open>strftime\<close>; \<open>w_scandir\<close> lists a directory in
  \<open>alphasort\<close> order; \<open>w_fmt_kbyte\<close> prints a size with \<open>%.02f\<close> after the
  division by 1024.0; \<open>w_getspnam\<close> and \<open>w_getpwnam\<close> give the stored password of
  an account (\<open>w_getspnam\<close> is \<open>None\<close> everywhere in a build without HAVE_SHADOW);
  \<open>w_junk\<close> is the memory after a local buffer.  The three \<open>REALM\<close> sizes are the
  array sizes of \<open>struct auth_realm\<close>.
\<close>

record world =
  w_stat :: "string \<Rightarrow> stat option"
  w_realpath :: "string \<Rightarrow> string option"
  w_getcwd :: "string option"
  w_open :: "string \<Rightarrow> int"
  w_reads :: "string \<Rightarrow> string list"
  w_scandir :: "string \<Rightarrow> string list option"
  w_time :: int
  w_strptime :: "string \<Rightarrow> int option"
  w_strftime :: "int \<Rightarrow> string"
  w_fmt_kbyte :: "int \<Rightarrow> string"
  w_crypt :: "string \<Rightarrow> string \<Rightarrow> string"
  w_getspnam :: "string \<Rightarrow> string option"
  w_getpwnam :: "string \<Rightarrow> string option"
  w_junk :: string
  PATH_MAX :: nat
  UH_LIMIT_MSGHEAD :: nat
  REALM_PATH_SIZE :: nat
  REALM_USER_SIZE :: nat
  REALM_PASS_SIZE :: nat

section \<open>Requests, configuration and connections\<close>

text \<open>
  Modelled from the spec: the enumerations \<open>http_method\<close> and \<open>http_version\<close> and the
  table \<open>http_versions\<close> are declared in \<open>uhttpd.h\<close> and \<open>uhttpd.c\<close>, which are not
  among the sources.  The spec gives the methods GET, HEAD, POST and other, the versions
  0.9, 1.0 and 1.1 in this order, and status lines that start \<open>HTTP/1.0\<close> and
  \<open>HTTP/1.1\<close>.
\<close>

datatype http_method = UH_HTTP_MSG_GET | UH_HTTP_MSG_HEAD | UH_HTTP_MSG_POST | UH_HTTP_MSG_OTHER

datatype http_version = UH_HTTP_VER_0_9 | UH_HTTP_VER_1_0 | UH_HTTP_VER_1_1

fun http_versions :: "http_version \<Rightarrow> string" where
  "http_versions UH_HTTP_VER_0_9 = ''HTTP/0.9''"
| "http_versions UH_HTTP_VER_1_0 = ''HTTP/1.0''"
| "http_versions UH_HTTP_VER_1_1 = ''HTTP/1.1''"

text \<open>The test \<open>version > UH_HTTP_VER_1_0\<close>.\<close>

fun above_1_0 :: "http_version \<Rightarrow> bool" where
  "above_1_0 UH_HTTP_VER_1_1 = True"
| "above_1_0 _ = False"

text \<open>
  \<open>struct auth_realm\<close>; the list \<open>uh_realms\<close> is a list of these, head first.
\<close>

record auth_realm =
  ar_path :: string
  ar_user :: string
  ar_pass :: string

text \<open>
  \<open>struct http_request\<close>: \<open>headers\<close> holds the name/value pairs of the header array in
  order, up to its first NULL.
\<close>

record http_request =
  rq_method :: http_method
  rq_version :: http_version
  rq_headers :: "(string \<times> string) list"
  rq_realm :: "auth_realm option"

record config =
  docroot :: string
  cf_realm :: string
  no_symlinks :: bool
  no_dirlists :: bool

text \<open>
  One call of the low-level write loop \<open>__uh_raw_send\<close> ends in one of three ways: all
  bytes written (a positive return value), the peer closed after \<open>n\<close> bytes (return
  value 0), or an error or timeout after \<open>n\<close> bytes (return value \<open>-1\<close>).
\<close>

datatype wr = Sent | Closed nat | Failed nat

text \<open>
  \<open>struct client\<close>: the bytes that reached the wire so far, the number of
  \<open>uh_tcp_send\<close> calls made, what each call will meet (by its number), the request and
  the configuration behind \<open>cl->server->conf\<close>.
\<close>

record client =
  cl_wire :: string
  cl_nsend :: nat
  cl_net :: "nat \<Rightarrow> wr"
  cl_request :: http_request
  cl_conf :: config

definition uh_tcp_send :: "client \<Rightarrow> string \<Rightarrow> int \<times> client" where
  "uh_tcp_send cl buf =
     (case cl_net cl (cl_nsend cl) of
        Sent \<Rightarrow> (int (length buf), cl\<lparr>cl_wire := cl_wire cl @ buf, cl_nsend := Suc (cl_nsend cl)\<rparr>)
      | Closed n \<Rightarrow> (0, cl\<lparr>cl_wire := cl_wire cl @ take n buf, cl_nsend := Suc (cl_nsend cl)\<rparr>)
      | Failed n \<Rightarrow> (- 1, cl\<lparr>cl_wire := cl_wire cl @ take n buf, cl_nsend := Suc (cl_nsend cl)\<rparr>))"

text \<open>
  \<open>uh_http_sendc(cl, data, len)\<close>.  \<open>data\<close> is the memory at the pointer, \<open>len\<close> the
  length argument (\<open>-1\<close> asks for \<open>strlen\<close>).  The chunk size line is formatted into
  \<open>char chunk[8]\<close> and sent with the length \<open>snprintf\<close> returned.  Each
  \<open>ensure_ret\<close> returns \<open>-1\<close> as soon as a send does.
\<close>

definition uh_http_sendc :: "world \<Rightarrow> client \<Rightarrow> string \<Rightarrow> int \<Rightarrow> int \<times> client" where
  "uh_http_sendc w cl data len0 =
     (let len = (if len0 = - 1 then int (length (cstr data)) else len0) in
      if len > 0 then
        (let (chunk, clen) = c_snprintf 8 (fmt_X len @ CRLF);
             (r1, cl1) = uh_tcp_send cl (buf_read chunk (w_junk w) clen)
         in if r1 < 0 then (- 1, cl1) else
            (let (r2, cl2) = uh_tcp_send cl1 (take (nat len) data)
             in if r2 < 0 then (- 1, cl2) else
                (let (r3, cl3) = uh_tcp_send cl2 CRLF
                 in if r3 < 0 then (- 1, cl3) else (0, cl3))))
      else
        (let (r, cl1) = uh_tcp_send cl (''0'' @ CRLF @ CRLF)
         in if r < 0 then (- 1, cl1) else (0, cl1)))"

text \<open>
  \<open>uh_http_sendf(cl, req, fmt, ...)\<close>: \<open>s\<close> is the text the format produces.  It is
  formatted into \<open>buffer[UH_LIMIT_MSGHEAD]\<close> and sent with the length \<open>vsnprintf\<close>
  returned; \<open>req\<close> is \<open>None\<close> for a NULL request.
\<close>

definition uh_http_sendf :: "world \<Rightarrow> client \<Rightarrow> http_request option \<Rightarrow> string \<Rightarrow> int \<times> client" where
  "uh_http_sendf w cl req s =
     (let (buffer, len) = c_snprintf (UH_LIMIT_MSGHEAD w) s in
      if (case req of None \<Rightarrow> False | Some r \<Rightarrow> above_1_0 (rq_version r)) then
        (let (r, cl1) = uh_http_sendc w cl (buffer @ NUL # w_junk w) len
         in if r < 0 then (- 1, cl1) else (0, cl1))
      else if len > 0 then
        (let (r, cl1) = uh_tcp_send cl (buf_read buffer (w_junk w) len)
         in if r < 0 then (- 1, cl1) else (0, cl1))
      else (0, cl))"

text \<open>\<open>uh_http_send(cl, req, buf, len)\<close>.\<close>

definition uh_http_send :: "world \<Rightarrow> client \<Rightarrow> http_request option \<Rightarrow> string \<Rightarrow> int \<Rightarrow> int \<times> client" where
  "uh_http_send w cl req buf len0 =
     (let len = (if len0 < 0 then int (length (cstr buf)) else len0) in
      if (case req of None \<Rightarrow> False | Some r \<Rightarrow> above_1_0 (rq_version r)) then
        (let (r, cl1) = uh_http_sendc w cl buf len
         in if r < 0 then (- 1, cl1) else (0, cl1))
      else if len > 0 then
        (let (r, cl1) = uh_tcp_send cl (take (nat len) buf)
         in if r < 0 then (- 1, cl1) else (0, cl1))
      else (0, cl))"

section \<open>String comparison of the C library\<close>

text \<open>
  Only the outcome \<open>== 0\<close> of the comparison functions is used by the server, so each is
  modelled by that test, on C strings (lists without NUL).
\<close>

definition strcmp0 :: "string \<Rightarrow> string \<Rightarrow> bool" where
  "strcmp0 a b = (a = b)"


definition strcasecmp0 :: "string \<Rightarrow> string \<Rightarrow> bool" where
  "strcasecmp0 a b = (map tolower_c a = map tolower_c b)"


text \<open>The byte at an index of a C string; its terminating NUL at and past the end.\<close>

definition peek :: "string \<Rightarrow> nat \<Rightarrow> char" where
  "peek s k = (if k < length s then s ! k else NUL)"

section \<open>MIME lookup (uhttpd-file.c)\<close>

text \<open>
  The inner loop of \<open>uh_file_mime_lookup\<close> for one table entry: \<open>e\<close> runs from the last
  byte of the path down to its first; \<open>mime_scan path extn n\<close> covers the indices below
  \<open>n\<close>.
\<close>

fun mime_scan :: "string \<Rightarrow> string \<Rightarrow> nat \<Rightarrow> bool" where
  "mime_scan path extn 0 = False"
| "mime_scan path extn (Suc e) =
     (if (path ! e = CHR ''.'' \<or> path ! e = CHR ''/'') \<and> strcasecmp0 (drop (Suc e) path) extn
      then True
      else mime_scan path extn e)"

text \<open>
  \<open>uh_file_mime_lookup\<close>; the table \<open>uh_mime_types\<close> of \<open>uhttpd-mimetypes.h\<close> is a
  parameter: its entries \<open>(extn, mime)\<close> in order, up to the terminating NULL entry.
\<close>

fun uh_file_mime_lookup :: "(string \<times> string) list \<Rightarrow> string \<Rightarrow> string" where
  "uh_file_mime_lookup [] path = ''application/octet-stream''"
| "uh_file_mime_lookup ((extn, mime) # ms) path =
     (if mime_scan path extn (length path) then mime else uh_file_mime_lookup ms path)"

text \<open>
  The lookup rule in the words of the specification, for comparison: scan the path from
  its end, stop at the last \<open>.\<close> or \<open>/\<close>, and look the text after it up in the table
  without regard to case; \<open>application/octet-stream\<close> when nothing matches.
\<close>

definition is_anchor :: "char \<Rightarrow> bool" where
  "is_anchor c = (c = CHR ''.'' \<or> c = CHR ''/'')"

definition last_extension :: "string \<Rightarrow> string option" where
  "last_extension path =
     (if \<exists>c\<in>set path. is_anchor c
      then Some (rev (takeWhile (\<lambda>c. \<not> is_anchor c) (rev path)))
      else None)"

definition mime_by_last_extension :: "(string \<times> string) list \<Rightarrow> string \<Rightarrow> string" where
  "mime_by_last_extension tbl path =
     (case last_extension path of
        None \<Rightarrow> ''application/octet-stream''
      | Some ext \<Rightarrow>
          (case find (\<lambda>(extn, mime). strcasecmp0 ext extn) tbl of
             None \<Rightarrow> ''application/octet-stream''
           | Some (extn, mime) \<Rightarrow> mime))"

text \<open>
  What the code computes: an entry matches when its extension equals, without regard to
  case, the rest of the path after some \<open>.\<close> or \<open>/\<close>.
\<close>

definition anchored_match :: "string \<Rightarrow> string \<Rightarrow> bool" where
  "anchored_match path extn =
     list_ex (\<lambda>e. is_anchor (path ! e) \<and> strcasecmp0 (drop (Suc e) path) extn) [0..<length path]"

section \<open>Path canonicalisation (uhttpd-utils.c)\<close>

text \<open>
  The inner loop \<open>while ((path_res > path_resolved) && (*--path_res != '/'))\<close> of
  \<open>canonpath\<close>.  The bytes between \<open>path_resolved\<close> and \<open>path_res\<close> are kept as a
  stack, last written byte first.
\<close>

fun pop_seg :: "string \<Rightarrow> string" where
  "pop_seg [] = []"
| "pop_seg (c # res) = (if c \<noteq> CHR ''/'' then pop_seg res else res)"

text \<open>
  The normalising loop of \<open>canonpath\<close>: \<open>lim\<close> is \<open>PATH_MAX - 2\<close>, \<open>i\<close> the offset of
  \<open>path_cpy\<close> in \<open>path_copy\<close>, \<open>cpy\<close> the C string at \<open>path_cpy\<close>, \<open>res\<close> the stack
  of bytes written.
\<close>

function canon_norm :: "nat \<Rightarrow> nat \<Rightarrow> string \<Rightarrow> string \<Rightarrow> string" where
  "canon_norm lim i cpy res =
     (if peek cpy 0 \<noteq> NUL \<and> i < lim then
        (if peek cpy 0 = CHR ''/'' \<and> peek cpy 1 = CHR ''/''
         then canon_norm lim (i + 1) (drop 1 cpy) res
         else if peek cpy 0 = CHR ''/'' \<and> peek cpy 1 = CHR ''.'' \<and>
                 (peek cpy 2 = CHR ''/'' \<or> peek cpy 2 = NUL)
         then canon_norm lim (i + 2) (drop 2 cpy) res
         else if peek cpy 0 = CHR ''/'' \<and> peek cpy 1 = CHR ''.'' \<and> peek cpy 2 = CHR ''.'' \<and>
                 (peek cpy 3 = CHR ''/'' \<or> peek cpy 3 = NUL)
         then canon_norm lim (i + 3) (drop 3 cpy) (pop_seg res)
         else canon_norm lim (i + 1) (drop 1 cpy) (peek cpy 0 # res))
      else res)"
  by pat_completeness auto
termination
  by (relation "measure (\<lambda>(lim, i, cpy, res). length cpy)") (auto simp: peek_def split: if_splits)

declare canon_norm.simps [simp del]

text \<open>The trailing-slash step after the loop, on the stack.\<close>

definition canon_fix :: "string \<Rightarrow> string" where
  "canon_fix res =
     (if length res > 1 \<and> hd res = CHR ''/'' then tl res
      else if res = [] then [CHR ''/'']
      else res)"

text \<open>What \<open>canonpath\<close> leaves in \<open>path_resolved\<close> for the contents of \<open>path_copy\<close>.\<close>

definition canon_string :: "nat \<Rightarrow> string \<Rightarrow> string" where
  "canon_string pmax path_copy = rev (canon_fix (canon_norm (pmax - 2) 0 path_copy []))"

text \<open>\<open>stat\<close>; the empty path does not exist (ENOENT).\<close>

definition c_stat :: "world \<Rightarrow> string \<Rightarrow> stat option" where
  "c_stat w p = (if p = [] then None else w_stat w p)"

text \<open>
  The contents of \<open>path_copy\<close> before the loop: the path itself when it is absolute, the
  working directory, a slash and the path otherwise, cut to \<open>PATH_MAX - 1\<close> bytes;
  \<open>None\<close> when \<open>getcwd\<close> fails.
\<close>

definition canon_copy :: "world \<Rightarrow> string \<Rightarrow> string option" where
  "canon_copy w path =
     (if peek path 0 \<noteq> CHR ''/'' then
        (case w_getcwd w of
           None \<Rightarrow> None
         | Some cwd \<Rightarrow>
             if PATH_MAX w \<le> length (cstr cwd) then None
             else Some (take (PATH_MAX w - 1) (cstr cwd @ CHR ''/'' # path)))
      else Some (take (PATH_MAX w - 1) path))"

text \<open>
  \<open>canonpath(path, path_resolved)\<close>: whether it returns \<open>path_resolved\<close> rather than
  NULL, and the C string then held in \<open>path_resolved\<close> (\<open>old\<close> is what it held before).
\<close>

definition canonpath :: "world \<Rightarrow> string \<Rightarrow> string \<Rightarrow> bool \<times> string" where
  "canonpath w path old =
     (case canon_copy w (cstr path) of
        None \<Rightarrow> (False, old)
      | Some path_copy \<Rightarrow>
          (let r = canon_string (PATH_MAX w) path_copy in
           case c_stat w r of
             None \<Rightarrow> (False, r)
           | Some s \<Rightarrow> (has_bit (st_mode s) S_IROTH, r)))"


section \<open>Index files and path lookup (uhttpd-utils.c)\<close>


text \<open>\<open>struct path_info\<close>.\<close>

record path_info =
  pi_root :: string
  pi_phys :: string
  pi_name :: string
  pi_info :: "string option"
  pi_query :: "string option"
  pi_redirected :: bool
  pi_stat :: stat








section \<open>Authentication (uhttpd-utils.c)\<close>







section \<open>Static file handler (uhttpd-file.c)\<close>

text \<open>
  The macro \<open>ensure_ret\<close> (and \<open>ensure_out\<close>, whose label only closes the file): stop
  with \<open>-1\<close> when the call returned a negative value, go on with the client otherwise.
\<close>

definition ensure :: "int \<times> client \<Rightarrow> (client \<Rightarrow> int \<times> client) \<Rightarrow> int \<times> client" where
  "ensure r k = (if fst r < 0 then (- 1, snd r) else k (snd r))"

text \<open>\<open>printf\<close>'s \<open>%i\<close> and \<open>%03i\<close>.\<close>

function dec_digits :: "int \<Rightarrow> string" where
  "dec_digits n =
     (if n < 10 then [''0123456789'' ! nat n]
      else dec_digits (n div 10) @ [''0123456789'' ! nat (n mod 10)])"
  by pat_completeness auto
termination
  by (relation "measure nat") auto

declare dec_digits.simps [simp del]

definition fmt_i :: "int \<Rightarrow> string" where
  "fmt_i n = (if n < 0 then CHR ''-'' # dec_digits (- n) else dec_digits n)"

definition fmt_03i :: "int \<Rightarrow> string" where
  "fmt_03i n =
     (if n < 0 then CHR ''-'' # replicate (2 - length (dec_digits (- n))) (CHR ''0'') @ dec_digits (- n)
      else replicate (3 - length (dec_digits n)) (CHR ''0'') @ dec_digits n)"

text \<open>\<open>uh_http_sendhf(cl, code, summary, fmt, ...)\<close>; \<open>body\<close> is the formatted text.\<close>

definition uh_http_sendhf :: "world \<Rightarrow> client \<Rightarrow> int \<Rightarrow> string \<Rightarrow> string \<Rightarrow> int \<times> client" where
  "uh_http_sendhf w cl status summary body =
     (let (head, len) = c_snprintf (UH_LIMIT_MSGHEAD w)
            (''HTTP/1.1 '' @ fmt_03i status @ '' '' @ summary @ CRLF @
             ''Connection: close'' @ CRLF @
             ''Content-Type: text/plain'' @ CRLF @
             ''Transfer-Encoding: chunked'' @ CRLF @ CRLF);
          (buffer, blen) = c_snprintf (UH_LIMIT_MSGHEAD w) body
      in ensure (uh_tcp_send cl (buf_read head (w_junk w) len)) (\<lambda>cl.
         ensure (uh_http_sendc w cl (buffer @ NUL # w_junk w) blen) (\<lambda>cl.
         ensure (uh_http_sendc w cl [] 0) (\<lambda>cl. (0, cl)))))"

text \<open>\<open>uh_file_mktag\<close>: the three numbers are cast to \<open>unsigned int\<close>.\<close>

definition uh_file_mktag :: "stat \<Rightarrow> string" where
  "uh_file_mktag s =
     fst (c_snprintf 128
       ([DQUOTE] @ fmt_x (st_ino s mod 2 ^ 32) @ ''-'' @ fmt_x (st_size s mod 2 ^ 32) @ ''-'' @
        fmt_x (st_mtime s mod 2 ^ 32) @ [DQUOTE]))"

definition uh_file_date2unix :: "world \<Rightarrow> string \<Rightarrow> int" where
  "uh_file_date2unix w date = (case w_strptime w date of Some t \<Rightarrow> t | None \<Rightarrow> 0)"

text \<open>\<open>uh_file_unix2date\<close> formats into \<open>str[128]\<close>.\<close>

definition uh_file_unix2date :: "world \<Rightarrow> int \<Rightarrow> string" where
  "uh_file_unix2date w ts = take 127 (cstr (w_strftime w ts))"

definition uh_file_header_lookup :: "client \<Rightarrow> string \<Rightarrow> string option" where
  "uh_file_header_lookup cl name =
     map_option snd (find (\<lambda>h. strcasecmp0 (fst h) name) (rq_headers (cl_request cl)))"

definition uh_file_response_ok_hdrs :: "world \<Rightarrow> client \<Rightarrow> stat option \<Rightarrow> int \<times> client" where
  "uh_file_response_ok_hdrs w cl s =
     ensure (uh_http_sendf w cl None (''Connection: close'' @ CRLF)) (\<lambda>cl.
       (case s of
          Some st \<Rightarrow>
            ensure (uh_http_sendf w cl None (''ETag: '' @ uh_file_mktag st @ CRLF)) (\<lambda>cl.
            ensure (uh_http_sendf w cl None
                      (''Last-Modified: '' @ uh_file_unix2date w (st_mtime st) @ CRLF)) (\<lambda>cl.
            uh_http_sendf w cl None (''Date: '' @ uh_file_unix2date w (w_time w) @ CRLF)))
        | None \<Rightarrow> uh_http_sendf w cl None (''Date: '' @ uh_file_unix2date w (w_time w) @ CRLF)))"

definition uh_file_response_200 :: "world \<Rightarrow> client \<Rightarrow> stat option \<Rightarrow> int \<times> client" where
  "uh_file_response_200 w cl s =
     ensure (uh_http_sendf w cl None
               (http_versions (rq_version (cl_request cl)) @ '' 200 OK'' @ CRLF)) (\<lambda>cl.
     uh_file_response_ok_hdrs w cl s)"

definition uh_file_response_304 :: "world \<Rightarrow> client \<Rightarrow> stat option \<Rightarrow> int \<times> client" where
  "uh_file_response_304 w cl s =
     ensure (uh_http_sendf w cl None
               (http_versions (rq_version (cl_request cl)) @ '' 304 Not Modified'' @ CRLF)) (\<lambda>cl.
     uh_file_response_ok_hdrs w cl s)"

definition uh_file_response_412 :: "world \<Rightarrow> client \<Rightarrow> int \<times> client" where
  "uh_file_response_412 w cl =
     uh_http_sendf w cl None
       (http_versions (rq_version (cl_request cl)) @ '' 412 Precondition Failed'' @ CRLF @
        ''Connection: close'' @ CRLF)"

text \<open>
  The token loop shared by \<open>uh_file_if_match\<close> and \<open>uh_file_if_none_match\<close>: \<open>hdr\<close>
  is the header value in memory (the loop writes NUL bytes into it and re-reads
  \<open>strlen(hdr)\<close> at every turn), \<open>i\<close> the index, \<open>p\<close> the offset of the token pointer.
  The result tells whether a token equal to \<open>*\<close> or to the tag was met.  The bytes the
  loop overwrites belong to this header value only, which is not read again.
\<close>

function tag_loop :: "string \<Rightarrow> string \<Rightarrow> nat \<Rightarrow> nat \<Rightarrow> bool" where
  "tag_loop tag hdr i p =
     (if i < length (cstr hdr) then
        (if hdr ! i = CHR '' '' \<or> hdr ! i = CHR '','' then tag_loop tag (hdr[i := NUL]) (i + 2) (i + 1)
         else if strcmp0 (cstr (drop p hdr)) ''*'' \<or> strcmp0 (cstr (drop p hdr)) tag then True
         else tag_loop tag hdr (i + 1) p)
      else False)"
  by pat_completeness auto
termination
proof (relation "measure (\<lambda>(tag, hdr, i, p). length hdr - i)")
  show "wf (measure (\<lambda>(tag, hdr, i, p). length hdr - i))" by simp
next
  fix tag hdr :: string and i p :: nat
  assume "i < length (cstr hdr)"
  moreover have "length (cstr hdr) \<le> length hdr"
    by (simp add: cstr_def length_takeWhile_le)
  ultimately have "i < length hdr" by simp
  then show "((tag, hdr[i := NUL], i + 2, i + 1), tag, hdr, i, p)
               \<in> measure (\<lambda>(tag, hdr, i, p). length hdr - i)"
    and "((tag, hdr, i + 1, p), tag, hdr, i, p)
               \<in> measure (\<lambda>(tag, hdr, i, p). length hdr - i)"
    by auto
qed

declare tag_loop.simps [simp del]

text \<open>
  The five precondition functions.  Each result is the return value, the value left in
  \<open>*ok\<close>, and the client.
\<close>

definition uh_file_if_match :: "world \<Rightarrow> client \<Rightarrow> stat \<Rightarrow> int \<times> int \<times> client" where
  "uh_file_if_match w cl s =
     (case uh_file_header_lookup cl ''If-Match'' of
        Some hdr \<Rightarrow>
          if tag_loop (uh_file_mktag s) hdr 0 0 then (1, 1, cl)
          else (let (r, cl1) = uh_file_response_412 w cl
                in if r < 0 then (- 1, 0, cl1) else (0, 0, cl1))
      | None \<Rightarrow> (1, 1, cl))"

definition uh_file_if_modified_since :: "world \<Rightarrow> client \<Rightarrow> stat \<Rightarrow> int \<times> int \<times> client" where
  "uh_file_if_modified_since w cl s =
     (case uh_file_header_lookup cl ''If-Modified-Since'' of
        Some hdr \<Rightarrow>
          if uh_file_date2unix w hdr \<ge> st_mtime s then
            (let (r, cl1) = uh_file_response_304 w cl (Some s)
             in if r < 0 then (- 1, 0, cl1) else (0, 0, cl1))
          else (1, 1, cl)
      | None \<Rightarrow> (1, 1, cl))"

definition uh_file_if_none_match :: "world \<Rightarrow> client \<Rightarrow> stat \<Rightarrow> int \<times> int \<times> client" where
  "uh_file_if_none_match w cl s =
     (case uh_file_header_lookup cl ''If-None-Match'' of
        Some hdr \<Rightarrow>
          if tag_loop (uh_file_mktag s) hdr 0 0 then
            (let (r, cl1) =
                   (if rq_method (cl_request cl) = UH_HTTP_MSG_GET \<or>
                       rq_method (cl_request cl) = UH_HTTP_MSG_HEAD
                    then uh_file_response_304 w cl (Some s)
                    else uh_file_response_412 w cl)
             in if r < 0 then (- 1, 0, cl1) else (0, 0, cl1))
          else (1, 1, cl)
      | None \<Rightarrow> (1, 1, cl))"

definition uh_file_if_range :: "world \<Rightarrow> client \<Rightarrow> stat \<Rightarrow> int \<times> int \<times> client" where
  "uh_file_if_range w cl s =
     (case uh_file_header_lookup cl ''If-Range'' of
        Some hdr \<Rightarrow>
          (let (r, cl1) = uh_file_response_412 w cl
           in if r < 0 then (- 1, 0, cl1) else (0, 0, cl1))
      | None \<Rightarrow> (1, 1, cl))"

definition uh_file_if_unmodified_since :: "world \<Rightarrow> client \<Rightarrow> stat \<Rightarrow> int \<times> int \<times> client" where
  "uh_file_if_unmodified_since w cl s =
     (case uh_file_header_lookup cl ''If-Unmodified-Since'' of
        Some hdr \<Rightarrow>
          if uh_file_date2unix w hdr \<le> st_mtime s then
            (let (r, cl1) = uh_file_response_412 w cl
             in if r < 0 then (- 1, 0, cl1) else (0, 0, cl1))
          else (1, 1, cl)
      | None \<Rightarrow> (1, 1, cl))"

text \<open>\<open>uh_file_scandir_filter_dir\<close>.\<close>

definition uh_file_scandir_filter_dir :: "string \<Rightarrow> bool" where
  "uh_file_scandir_filter_dir d_name = (\<not> strcmp0 d_name ''.'')"

text \<open>
  The two listing loops of \<open>uh_file_dirlist\<close>; \<open>base\<close> is the C string in
  \<open>filename\<close> up to \<open>pathptr\<close>.  Each stops with \<open>-1\<close> at a failed send.
\<close>

fun list_subdirs :: "world \<Rightarrow> path_info \<Rightarrow> string \<Rightarrow> string list \<Rightarrow> client \<Rightarrow> int \<times> client" where
  "list_subdirs w pi base [] cl = (0, cl)"
| "list_subdirs w pi base (d_name # files) cl =
     (let filename = base @ take (PATH_MAX w - length base - 1) d_name in
      case c_stat w filename of
        Some s \<Rightarrow>
          if has_bit (st_mode s) S_IFDIR \<and> has_bit (st_mode s) S_IXOTH then
            ensure (uh_http_sendf w cl (Some (cl_request cl))
                      (''<li><strong><a href='' @ [CHR 0x27] @ pi_name pi @ d_name @ [CHR 0x27] @ ''>'' @
                       d_name @ ''</a>/</strong><br /><small>modified: '' @
                       uh_file_unix2date w (st_mtime s) @
                       ''<br />directory - '' @ w_fmt_kbyte w (st_size s) @ '' kbyte<br />'' @
                       ''<br /></small></li>''))
              (list_subdirs w pi base files)
          else list_subdirs w pi base files cl
      | None \<Rightarrow> list_subdirs w pi base files cl)"

fun list_files ::
  "world \<Rightarrow> (string \<times> string) list \<Rightarrow> path_info \<Rightarrow> string \<Rightarrow> string list \<Rightarrow> client \<Rightarrow> int \<times> client" where
  "list_files w mimes pi base [] cl = (0, cl)"
| "list_files w mimes pi base (d_name # files) cl =
     (let filename = base @ take (PATH_MAX w - length base - 1) d_name in
      case c_stat w filename of
        Some s \<Rightarrow>
          if \<not> has_bit (st_mode s) S_IFDIR \<and> has_bit (st_mode s) S_IROTH then
            ensure (uh_http_sendf w cl (Some (cl_request cl))
                      (''<li><strong><a href='' @ [CHR 0x27] @ pi_name pi @ d_name @ [CHR 0x27] @ ''>'' @
                       d_name @ ''</a></strong><br /><small>modified: '' @
                       uh_file_unix2date w (st_mtime s) @
                       ''<br />'' @ uh_file_mime_lookup mimes filename @ '' - '' @
                       w_fmt_kbyte w (st_size s) @ '' kbyte<br />'' @
                       ''<br /></small></li>''))
              (list_files w mimes pi base files)
          else list_files w mimes pi base files cl
      | None \<Rightarrow> list_files w mimes pi base files cl)"

definition uh_file_dirlist :: "world \<Rightarrow> (string \<times> string) list \<Rightarrow> client \<Rightarrow> path_info \<Rightarrow> int \<times> client" where
  "uh_file_dirlist w mimes cl pi =
     ensure (uh_http_sendf w cl (Some (cl_request cl))
               (''<html><head><title>Index of '' @ pi_name pi @ ''</title></head>'' @
                ''<body><h1>Index of '' @ pi_name pi @ ''</h1><hr /><ol>'')) (\<lambda>cl.
     ensure (case w_scandir w (pi_phys pi) of
               None \<Rightarrow> (0, cl)
             | Some entries \<Rightarrow>
                 (let files = filter uh_file_scandir_filter_dir entries;
                      base = take (PATH_MAX w - 1) (pi_phys pi)
                  in if files = [] then (0, cl)
                     else ensure (list_subdirs w pi base files cl) (list_files w mimes pi base files)))
       (\<lambda>cl.
     ensure (uh_http_sendf w cl (Some (cl_request cl)) ''</ol><hr /></body></html>'') (\<lambda>cl.
     uh_http_sendf w cl (Some (cl_request cl)) [])))"

text \<open>
  The pump \<open>while ((rlen = read(fd, buf, sizeof(buf))) > 0)\<close> of \<open>uh_file_request\<close>
  over the results of the successive reads.
\<close>

fun pump :: "world \<Rightarrow> string list \<Rightarrow> client \<Rightarrow> int \<times> client" where
  "pump w [] cl = (0, cl)"
| "pump w (buf # later) cl =
     (if take (UH_LIMIT_MSGHEAD w) buf = [] then (0, cl)
      else ensure (uh_http_send w cl (Some (cl_request cl)) (take (UH_LIMIT_MSGHEAD w) buf)
                     (int (length (take (UH_LIMIT_MSGHEAD w) buf))))
             (pump w later))"

text \<open>
  The chain \<open>if (ok) ensure_out(f(cl, &pi->stat, &ok))\<close>: a state is the flag that a
  send failed (the jump to \<open>out\<close>), the value of \<open>ok\<close>, and the client.
\<close>

definition precond_step ::
  "(client \<Rightarrow> stat \<Rightarrow> int \<times> int \<times> client) \<Rightarrow> stat \<Rightarrow> bool \<times> int \<times> client \<Rightarrow> bool \<times> int \<times> client" where
  "precond_step f s st =
     (case st of (out, ok, cl) \<Rightarrow>
        if out \<or> ok = 0 then st
        else (case f cl s of (r, ok', cl') \<Rightarrow> (r < 0, ok', cl')))"

text \<open>
  The precondition tests of \<open>uh_file_request\<close> (the five lines after the file is
  opened), from \<open>ok = 1\<close>.
\<close>

definition uh_file_preconditions :: "world \<Rightarrow> client \<Rightarrow> stat \<Rightarrow> bool \<times> int \<times> client" where
  "uh_file_preconditions w cl s =
     precond_step (uh_file_if_none_match w) s
    (precond_step (uh_file_if_unmodified_since w) s
    (precond_step (uh_file_if_range w) s
    (precond_step (uh_file_if_match w) s
    (precond_step (uh_file_if_modified_since w) s (False, 1, cl)))))"

text \<open>
  \<open>uh_file_request(cl, pi)\<close>, with the MIME table as an argument.  The function returns
  \<open>false\<close> on every path; the result here is the client.  \<open>%i\<close> prints the size as
  a 32-bit \<open>int\<close>.
\<close>

definition uh_file_request :: "world \<Rightarrow> (string \<times> string) list \<Rightarrow> client \<Rightarrow> path_info \<Rightarrow> client" where
  "uh_file_request w mimes cl pi =
     (if has_bit (st_mode (pi_stat pi)) S_IFREG \<and> w_open w (pi_phys pi) > 0 then
        (let s = pi_stat pi;
             (out, ok, cl1) = uh_file_preconditions w cl s
         in if out then cl1
            else if ok > 0 then
              snd (ensure (uh_file_response_200 w cl1 (Some s)) (\<lambda>cl.
                   ensure (uh_http_sendf w cl None
                             (''Content-Type: '' @ uh_file_mime_lookup mimes (pi_name pi) @ CRLF)) (\<lambda>cl.
                   ensure (uh_http_sendf w cl None
                             (''Content-Length: '' @
                              fmt_i (sint (word_of_int (st_size s) :: 32 word)) @ CRLF)) (\<lambda>cl.
                   ensure (if above_1_0 (rq_version (cl_request cl)) \<and>
                              rq_method (cl_request cl) \<noteq> UH_HTTP_MSG_HEAD
                           then uh_http_send w cl None (''Transfer-Encoding: chunked'' @ CRLF) (- 1)
                           else (0, cl)) (\<lambda>cl.
                   ensure (uh_http_send w cl None CRLF (- 1)) (\<lambda>cl.
                   if rq_method (cl_request cl) \<noteq> UH_HTTP_MSG_HEAD then
                     ensure (pump w (w_reads w (pi_phys pi)) cl) (\<lambda>cl.
                     uh_http_send w cl (Some (cl_request cl)) [] 0)
                   else (0, cl)))))))
            else snd (uh_http_send w cl1 None CRLF (- 1)))
      else if has_bit (st_mode (pi_stat pi)) S_IFDIR \<and> \<not> no_dirlists (cl_conf cl) then
        snd (ensure (uh_file_response_200 w cl None) (\<lambda>cl.
             ensure (if above_1_0 (rq_version (cl_request cl))
                     then uh_http_send w cl None (''Transfer-Encoding: chunked'' @ CRLF) (- 1)
                     else (0, cl)) (\<lambda>cl.
             ensure (uh_http_send w cl None (''Content-Type: text/html'' @ CRLF @ CRLF) (- 1)) (\<lambda>cl.
             uh_file_dirlist w mimes cl pi))))
      else
        snd (uh_http_sendhf w cl 403 ''Forbidden'' ''Access to this resource is forbidden''))"

section \<open>Responses of the file handler, for the statements about them\<close>

text \<open>
  The client after one send that went through; a connection is healthy when every send
  does.
\<close>

definition emit :: "client \<Rightarrow> string \<Rightarrow> client" where
  "emit cl s = cl\<lparr>cl_wire := cl_wire cl @ s, cl_nsend := Suc (cl_nsend cl)\<rparr>"

definition healthy :: "client \<Rightarrow> bool" where
  "healthy cl = (cl_net cl = (\<lambda>n. Sent))"

text \<open>
  The outcome of the precondition tests as the specification tabulates it: the five
  headers in the fixed order If-Modified-Since, If-Match, If-Range, If-Unmodified-Since,
  If-None-Match, the first failure deciding.  A header value matches the tag as the token
  loop of the code finds it.
\<close>

datatype verdict = Pass | NotModified | PreconditionFailed

definition conditional_verdict :: "world \<Rightarrow> client \<Rightarrow> stat \<Rightarrow> verdict" where
  "conditional_verdict w cl s =
     (if (case uh_file_header_lookup cl ''If-Modified-Since'' of
            Some d \<Rightarrow> uh_file_date2unix w d \<ge> st_mtime s | None \<Rightarrow> False)
      then NotModified
      else if (case uh_file_header_lookup cl ''If-Match'' of
                 Some h \<Rightarrow> \<not> tag_loop (uh_file_mktag s) h 0 0 | None \<Rightarrow> False)
      then PreconditionFailed
      else if uh_file_header_lookup cl ''If-Range'' \<noteq> None
      then PreconditionFailed
      else if (case uh_file_header_lookup cl ''If-Unmodified-Since'' of
                 Some d \<Rightarrow> uh_file_date2unix w d \<le> st_mtime s | None \<Rightarrow> False)
      then PreconditionFailed
      else if (case uh_file_header_lookup cl ''If-None-Match'' of
                 Some h \<Rightarrow> tag_loop (uh_file_mktag s) h 0 0 | None \<Rightarrow> False)
      then (if rq_method (cl_request cl) = UH_HTTP_MSG_GET \<or>
               rq_method (cl_request cl) = UH_HTTP_MSG_HEAD
            then NotModified else PreconditionFailed)
      else Pass)"

text \<open>The header blocks the file handler sends, line by line.\<close>

definition status_line :: "client \<Rightarrow> string \<Rightarrow> string" where
  "status_line cl text = http_versions (rq_version (cl_request cl)) @ text @ CRLF"

definition ok_headers :: "world \<Rightarrow> stat \<Rightarrow> string" where
  "ok_headers w s =
     ''Connection: close'' @ CRLF @
     ''ETag: '' @ uh_file_mktag s @ CRLF @
     ''Last-Modified: '' @ uh_file_unix2date w (st_mtime s) @ CRLF @
     ''Date: '' @ uh_file_unix2date w (w_time w) @ CRLF"

definition dir_headers :: "world \<Rightarrow> string" where
  "dir_headers w =
     ''Connection: close'' @ CRLF @
     ''Date: '' @ uh_file_unix2date w (w_time w) @ CRLF"

definition resp_304 :: "world \<Rightarrow> client \<Rightarrow> stat \<Rightarrow> string" where
  "resp_304 w cl s = status_line cl '' 304 Not Modified'' @ ok_headers w s"

definition resp_412 :: "client \<Rightarrow> string" where
  "resp_412 cl = status_line cl '' 412 Precondition Failed'' @ ''Connection: close'' @ CRLF"

text \<open>
  \<open>sent cl cl' text\<close>: the client \<open>cl'\<close> is \<open>cl\<close> after \<open>text\<close> went out on a healthy
  connection; \<open>extends cl cl'\<close>: the wire of \<open>cl'\<close> continues that of \<open>cl\<close>.
\<close>

definition sent :: "client \<Rightarrow> client \<Rightarrow> string \<Rightarrow> bool" where
  "sent cl cl' text = (healthy cl' \<and> cl_request cl' = cl_request cl \<and> cl_wire cl' = cl_wire cl @ text)"

definition extends :: "client \<Rightarrow> client \<Rightarrow> bool" where
  "extends cl cl' = (\<exists>x. cl_wire cl' = cl_wire cl @ x)"

text \<open>
  The header lines of a response (the lines before the first empty line) and the test
  that one of them carries a given header name.
\<close>

fun split_lines :: "string \<Rightarrow> string \<Rightarrow> string list" where
  "split_lines cur [] = [cur]"
| "split_lines cur [c] = [cur @ [c]]"
| "split_lines cur (c # d # cs) =
     (if c = CR \<and> d = LF then cur # split_lines [] cs else split_lines (cur @ [c]) (d # cs))"

definition header_lines :: "string \<Rightarrow> string list" where
  "header_lines response = takeWhile (\<lambda>l. l \<noteq> []) (split_lines [] response)"

definition has_header :: "string \<Rightarrow> string \<Rightarrow> bool" where
  "has_header name response =
     (\<exists>l\<in>set (header_lines response). take (length name + 1) l = name @ '':'')"

section \<open>Path segments\<close>

text \<open>
  An absolute path is a sequence of segments, each after a slash.  A segment holds
  neither a slash nor a NUL; a normal segment is not empty and is neither \<open>.\<close> nor
  \<open>..\<close>.  \<open>norm_segs\<close> is the effect of the normalising loop of \<open>canonpath\<close> on the
  stack, segment by segment.
\<close>

definition seg_ok :: "string \<Rightarrow> bool" where
  "seg_ok s = (CHR ''/'' \<notin> set s \<and> NUL \<notin> set s)"

definition normal_seg :: "string \<Rightarrow> bool" where
  "normal_seg s = (seg_ok s \<and> s \<noteq> [] \<and> s \<noteq> ''.'' \<and> s \<noteq> ''..'')"

definition join :: "string list \<Rightarrow> string" where
  "join segs = concat (map ((#) (CHR ''/'')) segs)"

fun norm_segs :: "string list \<Rightarrow> string \<Rightarrow> string" where
  "norm_segs [] res = res"
| "norm_segs (seg # segs) res =
     (if seg = [] then (if segs = [] then CHR ''/'' # res else norm_segs segs res)
      else if seg = ''.'' then norm_segs segs res
      else if seg = ''..'' then norm_segs segs (pop_seg res)
      else norm_segs segs (rev seg @ CHR ''/'' # res))"

definition good_stack :: "string \<Rightarrow> string list \<Rightarrow> bool" where
  "good_stack res ks = ((\<forall>k\<in>set ks. normal_seg k) \<and> res = rev (join ks))"

section \<open>Example environments\<close>

text \<open>
  A small document root for the worked examples: the directories \<open>/\<close>, \<open>/srv\<close>,
  \<open>/srv/www\<close> and \<open>/srv/www/dir\<close>, the files \<open>index.html\<close>, \<open>index.htm\<close> and
  \<open>a.tar.gz\<close> under \<open>/srv/www\<close>, and the file \<open>/index.html\<close>, all readable by others.
\<close>

definition dir_stat :: stat where
  "dir_stat = \<lparr>st_mode = 0x41ED, st_ino = 2, st_size = 4096, st_mtime = 1597752000\<rparr>"

definition file_stat :: stat where
  "file_stat = \<lparr>st_mode = 0x81A4, st_ino = 26, st_size = 512, st_mtime = 1597752000\<rparr>"

definition demo_files :: "(string \<times> stat) list" where
  "demo_files =
     [(''/'', dir_stat), (''/srv'', dir_stat), (''/srv/www'', dir_stat),
      (''/srv/www/dir'', dir_stat),
      (''/srv/www/index.html'', file_stat), (''/srv/www/index.htm'', file_stat),
      (''/srv/www/a.tar.gz'', file_stat), (''/index.html'', file_stat)]"

definition demo_world :: world where
  "demo_world =
     \<lparr>w_stat = map_of demo_files,
      w_realpath = (\<lambda>p. if map_of demo_files p = None then None else Some p),
      w_getcwd = Some ''/'',
      w_open = (\<lambda>p. 3),
      w_reads = (\<lambda>p. [''hello'']),
      w_scandir = (\<lambda>p. Some [''.'', ''..'', ''index.html'']),
      w_time = 1597754096,
      w_strptime = (\<lambda>d. if d = ''Tue, 18 Aug 2020 12:00:00 GMT'' then Some 1597752000 else None),
      w_strftime = (\<lambda>t. if t = 1597752000 then ''Tue, 18 Aug 2020 12:00:00 GMT''
                         else ''Tue, 18 Aug 2020 12:34:56 GMT''),
      w_fmt_kbyte = (\<lambda>n. ''0.50''),
      w_crypt = (\<lambda>key salt. ''x''),
      w_getspnam = (\<lambda>n. None),
      w_getpwnam = (\<lambda>n. None),
      w_junk = [],
      PATH_MAX = 4096,
      UH_LIMIT_MSGHEAD = 4096,
      REALM_PATH_SIZE = 4096,
      REALM_USER_SIZE = 32,
      REALM_PASS_SIZE = 128\<rparr>"

definition demo_conf :: config where
  "demo_conf = \<lparr>docroot = ''/srv/www'', cf_realm = ''Protected Area'', no_symlinks = False, no_dirlists = False\<rparr>"

definition demo_request :: "(string \<times> string) list \<Rightarrow> http_request" where
  "demo_request hs =
     \<lparr>rq_method = UH_HTTP_MSG_GET, rq_version = UH_HTTP_VER_1_1, rq_headers = hs, rq_realm = None\<rparr>"

text \<open>A client on a connection where every send goes through.\<close>

definition demo_client :: "(string \<times> string) list \<Rightarrow> client" where
  "demo_client hs =
     \<lparr>cl_wire = [], cl_nsend = 0, cl_net = (\<lambda>n. Sent), cl_request = demo_request hs, cl_conf = demo_conf\<rparr>"

text \<open>The \<open>path_info\<close> of a regular file with the given name under the document root.\<close>

definition demo_pi :: "string \<Rightarrow> path_info" where
  "demo_pi name =
     \<lparr>pi_root = ''/srv/www'', pi_phys = ''/srv/www'' @ name, pi_name = name, pi_info = None,
      pi_query = None, pi_redirected = False, pi_stat = file_stat\<rparr>"

text \<open>The \<open>path_info\<close> of the document root as a directory.\<close>

definition demo_dir_pi :: path_info where
  "demo_dir_pi =
     \<lparr>pi_root = ''/srv/www'', pi_phys = ''/srv/www/'', pi_name = ''/'', pi_info = None,
      pi_query = None, pi_redirected = False, pi_stat = dir_stat\<rparr>"

text \<open>
  A deep tree: every path is a directory readable by others.  \<open>deep_dir\<close> is 2046 levels
  down and 4092 bytes long; \<open>deep_path\<close> names the entry \<open>.x\<close> in it and is
  \<open>PATH_MAX - 1\<close> bytes long.
\<close>

definition deep_world :: world where
  "deep_world = demo_world\<lparr>w_stat := (\<lambda>p. Some dir_stat)\<rparr>"

definition deep_dir :: string where
  "deep_dir = concat (replicate 2046 ''/a'')"

definition deep_path :: string where
  "deep_path = deep_dir @ ''/.x''"

section \<open>Properties of the URL codec\<close>

lemma unreserved_not_percent: "unreserved c \<Longrightarrow> c \<noteq> CHR ''%''"
  by (auto simp: unreserved_def isalnum_c_def isdigit_c_def isupper_c_def islower_c_def code_def)

lemma unreserved_set_all: "\<forall>c::char. unreserved c = (c \<in> rfc3986_unreserved)"
  by code_simp

lemma unreserved_set: "unreserved c = (c \<in> rfc3986_unreserved)"
  using unreserved_set_all by blast

lemma urlencode_loop_unreserved:
  "\<forall>c\<in>set s. unreserved c \<Longrightarrow> int (length buf + length s) \<le> blen \<Longrightarrow>
   urlencode_loop blen buf s = (int (length buf + length s), buf @ s)"
  by (induction s arbitrary: buf) auto

lemma urldecode_loop_plain:
  "CHR ''%'' \<notin> set s \<Longrightarrow> int (length buf + length s) \<le> blen \<Longrightarrow>
   urldecode_loop blen buf s = (int (length buf + length s), buf @ s)"
  by (induction s arbitrary: buf) auto

lemma escaped_ok_append: "escaped_ok xs \<Longrightarrow> escaped_ok ys \<Longrightarrow> escaped_ok (xs @ ys)"
proof (induction xs rule: escaped_ok.induct)
  case 1
  then show ?case by simp
next
  case (2 c cs)
  show ?case
  proof (cases "c = CHR ''%''")
    case True
    with 2 obtain a b rest where cs: "cs = a # b # rest"
      and h: "lowerhex a" "lowerhex b" "escaped_ok rest"
      by (auto split: list.splits)
    from 2(1)[OF True cs refl h(3) 2(4)] h True cs show ?thesis by simp
  next
    case False
    with 2 show ?thesis by simp
  qed
qed

lemma hexdigit_all: "\<forall>k \<in> set [0..<16]. lowerhex (''0123456789abcdef'' ! k)"
  by code_simp

lemma lowerhex_hexdigit: "lowerhex (hexdigit n)"
proof -
  have "n mod 16 \<in> set [0..<16]" by simp
  then show ?thesis unfolding hexdigit_def using hexdigit_all by blast
qed

lemma lowerhex_unreserved: "lowerhex c \<Longrightarrow> unreserved c"
  by (auto simp: lowerhex_def unreserved_def isalnum_c_def islower_c_def)

lemma escaped_ok_urlencode_loop:
  "escaped_ok buf \<Longrightarrow> escaped_ok (snd (urlencode_loop blen buf s))"
proof (induction s arbitrary: buf)
  case Nil
  then show ?case by simp
next
  case (Cons c cs)
  have a: "escaped_ok (buf @ [c])" if "unreserved c"
    using that Cons.prems unreserved_not_percent[of c] by (intro escaped_ok_append) auto
  have b: "escaped_ok (buf @ [CHR ''%'', hexdigit (code c div 16), hexdigit (code c)])"
    using Cons.prems by (intro escaped_ok_append) (auto simp: lowerhex_hexdigit)
  show ?case using a b Cons.IH Cons.prems by auto
qed

lemma escaped_ok_charset: "escaped_ok xs \<Longrightarrow> c \<in> set xs \<Longrightarrow> unreserved c \<or> c = CHR ''%''"
proof (induction xs rule: escaped_ok.induct)
  case 1
  then show ?case by simp
next
  case (2 d ds)
  show ?case
  proof (cases "d = CHR ''%''")
    case True
    with 2(3) obtain a b rest where cs: "ds = a # b # rest"
      and h: "lowerhex a" "lowerhex b" "escaped_ok rest"
      by (auto split: list.splits)
    from 2(4) cs have "c = d \<or> c = a \<or> c = b \<or> c \<in> set rest" by auto
    with 2(1)[OF True cs refl h(3)] h True lowerhex_unreserved show ?thesis by blast
  next
    case False
    with 2 show ?thesis by auto
  qed
qed

text \<open>
  C7 (URL codec round trip).  For a byte string \<open>s\<close> of RFC 3986 unreserved characters
  and buffers that hold it, \<open>uh_urlencode\<close> returns \<open>s\<close> itself and \<open>uh_urldecode\<close> of
  that output returns \<open>s\<close> with its length.  For every byte string \<open>t\<close> and every buffer
  size, what \<open>uh_urlencode\<close> writes consists of unreserved characters and percent signs
  only, and every percent sign is followed by two lowercase hexadecimal digits.
\<close>

theorem url_codec_roundtrip_charset:
  "((\<forall>c\<in>set s. c \<in> rfc3986_unreserved) \<and> int (length s) \<le> b1 \<and> int (length s) \<le> b2 \<longrightarrow>
      uh_urlencode b1 s = (int (length s), s) \<and>
      uh_urldecode b2 (snd (uh_urlencode b1 s)) = (int (length s), s))
   \<and> (\<forall>c\<in>set (snd (uh_urlencode b t)). c \<in> urlencode_alphabet)
   \<and> escaped_ok (snd (uh_urlencode b t))"
proof (intro conjI impI)
  assume h: "(\<forall>c\<in>set s. c \<in> rfc3986_unreserved) \<and> int (length s) \<le> b1 \<and> int (length s) \<le> b2"
  then have u: "\<forall>c\<in>set s. unreserved c" using unreserved_set by blast
  then have np: "CHR ''%'' \<notin> set s" using unreserved_not_percent by blast
  show e: "uh_urlencode b1 s = (int (length s), s)"
    using urlencode_loop_unreserved[OF u, of "[]" b1] h by (simp add: uh_urlencode_def)
  show "uh_urldecode b2 (snd (uh_urlencode b1 s)) = (int (length s), s)"
    using urldecode_loop_plain[OF np, of "[]" b2] h by (simp add: e uh_urldecode_def)
next
  have ok: "escaped_ok (snd (uh_urlencode b t))"
    unfolding uh_urlencode_def by (rule escaped_ok_urlencode_loop) simp
  then show "escaped_ok (snd (uh_urlencode b t))" .
  show "\<forall>c\<in>set (snd (uh_urlencode b t)). c \<in> urlencode_alphabet"
  proof
    fix c assume "c \<in> set (snd (uh_urlencode b t))"
    from escaped_ok_charset[OF ok this] show "c \<in> urlencode_alphabet"
      unfolding unreserved_set urlencode_alphabet_def by blast
  qed
qed

theorem url_codec_roundtrip_charset_witness:
  "uh_urldecode 16 (snd (uh_urlencode 16 ''Index-1_a.b~Z'')) = (13, ''Index-1_a.b~Z'') \<and>
   snd (uh_urlencode 64 ''/a b?'') = ''%2fa%20b%3f'' \<and>
   escaped_ok (snd (uh_urlencode 64 ''/a b?''))"
proof -
  have e: "snd (uh_urlencode 64 ''/a b?'') = ''%2fa%20b%3f''" by code_simp
  have u: "\<forall>c\<in>set ''Index-1_a.b~Z''. c \<in> rfc3986_unreserved" by code_simp
  have l: "int (length ''Index-1_a.b~Z'') = 13" by simp
  note t = url_codec_roundtrip_charset[of "''Index-1_a.b~Z''" 16 16 64 "''/a b?''"]
  have prem: "(\<forall>c\<in>set ''Index-1_a.b~Z''. c \<in> rfc3986_unreserved) \<and>
      int (length ''Index-1_a.b~Z'') \<le> 16 \<and> int (length ''Index-1_a.b~Z'') \<le> 16"
    using u unfolding l by simp
  note r = conjunct2[OF mp[OF conjunct1[OF t] prem], unfolded l]
  note k = conjunct2[OF conjunct2[OF t]]
  from e r k show ?thesis by blast
qed

section \<open>Properties of the Base64 decoder\<close>

text \<open>
  C10 (Base64 decoder).  The decoder groups by source index, not by recognised
  characters: \<open>QUJD\<close> decodes to \<open>ABC\<close>, but after one leading space, which the loop
  skips, three bytes are written at index 3 from the first three recognised characters
  and the complete group yields nothing of \<open>ABC\<close>.
\<close>

theorem uh_b64decode_shifted_group:
  "uh_b64decode 100 ''QUJD'' 4 = (4, ''ABC'' @ [NUL]) \<and>
   uh_b64decode 100 '' QUJD'' 5 = (4, [CHR 0x01, CHR 0x05, CHR 0x09, NUL])"
  by code_simp

text \<open>
  What holds for every input: the return value counts the bytes written, the last of
  which is the NUL, and at most \<open>blen\<close> bytes are written when \<open>blen\<close> is positive
  (one byte, the NUL, otherwise).
\<close>

lemma b64_loop_bound:
  "int (length buf) < max blen 1 \<Longrightarrow> int (length (b64_loop blen i cout buf cs)) < max blen 1"
  by (induction cs arbitrary: i cout buf) (auto simp: Let_def split: option.splits)

lemma uh_b64decode_bounds:
  "fst (uh_b64decode blen src slen) = int (length (snd (uh_b64decode blen src slen))) \<and>
   last (snd (uh_b64decode blen src slen)) = NUL \<and>
   int (length (snd (uh_b64decode blen src slen))) \<le> max blen 1"
proof -
  have "int (length ([]::string)) < max blen 1" by simp
  from b64_loop_bound[OF this, of 0 0 "take (nat (slen + 1)) (cstr src)"]
  show ?thesis by (simp add: uh_b64decode_def Let_def)
qed

section \<open>Properties of the chunk encoder\<close>

lemma fmt_X_1M: "fmt_X 1048576 = ''100000''"
  by (simp add: fmt_X_def hex_digits.simps)

text \<open>
  C6 (chunk encoder framing).  For a payload of 0x100000 bytes on a connection where
  every send goes through, the size line does not fit \<open>chunk[8]\<close>: the bytes sent are
  \<open>100000\<close>, a carriage return and a NUL instead of the line feed, then the payload
  and CRLF.
\<close>

theorem uh_http_sendc_one_mebibyte:
  "length data = 1048576 \<Longrightarrow>
   cl_wire (snd (uh_http_sendc w \<lparr>cl_wire = [], cl_nsend = 0, cl_net = (\<lambda>_. Sent), cl_request = rq, cl_conf = cf\<rparr>
       data 1048576))
   = ''100000'' @ [CR, NUL] @ data @ CRLF"
  by (simp add: uh_http_sendc_def uh_tcp_send_def c_snprintf_def buf_read_def fmt_X_1M CRLF_def)

theorem uh_http_sendc_one_mebibyte_witness:
  "cl_wire (snd (uh_http_sendc demo_world
       \<lparr>cl_wire = [], cl_nsend = 0, cl_net = (\<lambda>_. Sent), cl_request = demo_request [], cl_conf = demo_conf\<rparr>
       (replicate 1048576 (CHR ''x'')) 1048576))
   = ''100000'' @ [CR, NUL] @ replicate 1048576 (CHR ''x'') @ CRLF"
  by (rule uh_http_sendc_one_mebibyte) (simp only: length_replicate)

section \<open>Properties of path canonicalisation\<close>

lemma NUL_neq_slash [simp]: "NUL \<noteq> CHR ''/''" "NUL \<noteq> CHR ''.''" "CHR ''/'' \<noteq> NUL" "CHR ''.'' \<noteq> NUL"
  by (simp_all add: NUL_def)

lemma peek_Cons_0 [simp]: "peek (c # cs) 0 = c"
  by (simp add: peek_def)

lemma peek_Cons_Suc [simp]: "peek (c # cs) (Suc k) = peek cs k"
  by (simp add: peek_def)

lemma peek_Nil [simp]: "peek [] k = NUL"
  by (simp add: peek_def)

lemma peek_Cons_numeral [simp]: "peek (c # cs) (numeral k) = peek cs (pred_numeral k)"
  by (simp add: numeral_eq_Suc)

lemma peek_Cons_1 [simp]: "peek (c # cs) 1 = peek cs 0"
  by (simp add: peek_def)

lemma canon_norm_Nil [simp]: "canon_norm lim i [] res = res"
  by (subst canon_norm.simps) simp

lemma join_Nil [simp]: "join [] = []"
  by (simp add: join_def)

lemma join_Cons [simp]: "join (s # segs) = CHR ''/'' # s @ join segs"
  by (simp add: join_def)

lemma join_append [simp]: "join (xs @ ys) = join xs @ join ys"
  by (simp add: join_def)

lemma join_head: "join segs = [] \<or> peek (join segs) 0 = CHR ''/''"
  by (cases segs) auto

lemma canon_norm_copy:
  "seg_ok seg \<Longrightarrow> i + length seg \<le> lim \<Longrightarrow>
   canon_norm lim i (seg @ rest) res = canon_norm lim (i + length seg) rest (rev seg @ res)"
proof (induction seg arbitrary: i res)
  case Nil
  then show ?case by simp
next
  case (Cons c seg)
  from Cons.prems have c: "c \<noteq> CHR ''/''" "c \<noteq> NUL" and s: "seg_ok seg" and l: "i < lim" "Suc i + length seg \<le> lim"
    by (auto simp: seg_ok_def)
  have "canon_norm lim i ((c # seg) @ rest) res = canon_norm lim (Suc i) (seg @ rest) (c # res)"
    using c l by (subst canon_norm.simps) simp
  also have "\<dots> = canon_norm lim (Suc i + length seg) rest (rev seg @ c # res)"
    by (rule Cons.IH[OF s l(2)])
  finally show ?case by simp
qed

lemma step_slash_slash:
  "i < lim \<Longrightarrow> canon_norm lim i (CHR ''/'' # CHR ''/'' # r) res = canon_norm lim (Suc i) (CHR ''/'' # r) res"
  by (subst canon_norm.simps) simp

lemma step_slash_end:
  "i < lim \<Longrightarrow> canon_norm lim i [CHR ''/''] res = CHR ''/'' # res"
  by (subst canon_norm.simps) simp

lemma step_dot:
  "i < lim \<Longrightarrow> rest = [] \<or> peek rest 0 = CHR ''/'' \<Longrightarrow>
   canon_norm lim i (CHR ''/'' # CHR ''.'' # rest) res = canon_norm lim (i + 2) rest res"
  by (subst canon_norm.simps) auto

lemma step_dotdot:
  "i < lim \<Longrightarrow> rest = [] \<or> peek rest 0 = CHR ''/'' \<Longrightarrow>
   canon_norm lim i (CHR ''/'' # CHR ''.'' # CHR ''.'' # rest) res = canon_norm lim (i + 3) rest (pop_seg res)"
  by (subst canon_norm.simps) auto

lemma step_normal:
  assumes n: "normal_seg seg" and l: "i + 1 + length seg \<le> lim"
  shows "canon_norm lim i (CHR ''/'' # seg @ rest) res =
         canon_norm lim (i + 1 + length seg) rest (rev seg @ CHR ''/'' # res)"
proof -
  from n obtain c s' where seg: "seg = c # s'" by (cases seg) (auto simp: normal_seg_def)
  from n seg have c: "c \<noteq> CHR ''/''" "c \<noteq> NUL" by (auto simp: normal_seg_def seg_ok_def)
  have b2: "\<not> (c = CHR ''.'' \<and> (peek (s' @ rest) 0 = CHR ''/'' \<or> peek (s' @ rest) 0 = NUL))"
  proof (cases s')
    case Nil
    with n seg show ?thesis by (auto simp: normal_seg_def)
  next
    case (Cons d s'')
    with n seg show ?thesis by (auto simp: normal_seg_def seg_ok_def)
  qed
  have b3: "\<not> (c = CHR ''.'' \<and> peek (s' @ rest) 0 = CHR ''.'' \<and>
               (peek (s' @ rest) 1 = CHR ''/'' \<or> peek (s' @ rest) 1 = NUL))"
  proof (cases s')
    case Nil
    with n seg show ?thesis by (auto simp: normal_seg_def)
  next
    case (Cons d s'')
    show ?thesis
    proof (cases s'')
      case Nil
      with Cons n seg show ?thesis by (auto simp: normal_seg_def)
    next
      case (Cons e s3)
      with \<open>s' = d # s''\<close> n seg show ?thesis by (auto simp: normal_seg_def seg_ok_def)
    qed
  qed
  from l have il: "i < lim" by simp
  have "canon_norm lim i (CHR ''/'' # seg @ rest) res = canon_norm lim (Suc i) (seg @ rest) (CHR ''/'' # res)"
    using c b2 b3 il unfolding seg by (subst canon_norm.simps) (auto simp: numeral_2_eq_2 numeral_3_eq_3)
  also have "\<dots> = canon_norm lim (Suc i + length seg) rest (rev seg @ CHR ''/'' # res)"
    using n l by (intro canon_norm_copy) (auto simp: normal_seg_def)
  finally show ?thesis by simp
qed

lemma canon_norm_join:
  "\<forall>s\<in>set segs. seg_ok s \<Longrightarrow> i + length (join segs) \<le> lim \<Longrightarrow>
   canon_norm lim i (join segs) res = norm_segs segs res"
proof (induction segs arbitrary: i res)
  case Nil
  then show ?case by simp
next
  case (Cons seg segs)
  from Cons.prems have ok: "\<forall>s\<in>set segs. seg_ok s" and sok: "seg_ok seg"
    and l: "i + 1 + length seg + length (join segs) \<le> lim" by auto
  have rest: "join segs = [] \<or> peek (join segs) 0 = CHR ''/''" by (rule join_head)
  consider (e) "seg = []" | (d) "seg = ''.''" | (dd) "seg = ''..''" | (n) "normal_seg seg"
    using sok by (auto simp: normal_seg_def)
  then show ?case
  proof cases
    case e
    show ?thesis
    proof (cases segs)
      case Nil
      with e l show ?thesis by (simp add: step_slash_end)
    next
      case (Cons s2 segs2)
      with e l have "canon_norm lim i (join (seg # segs)) res = canon_norm lim (Suc i) (join segs) res"
        by (simp add: step_slash_slash)
      also have "\<dots> = norm_segs segs res" using l e by (intro Cons.IH[OF ok]) simp
      finally show ?thesis using e Cons by simp
    qed
  next
    case d
    with l rest have "canon_norm lim i (join (seg # segs)) res = canon_norm lim (i + 2) (join segs) res"
      by (simp add: step_dot)
    also have "\<dots> = norm_segs segs res" using l d by (intro Cons.IH[OF ok]) simp
    finally show ?thesis using d by simp
  next
    case dd
    with l rest have "canon_norm lim i (join (seg # segs)) res = canon_norm lim (i + 3) (join segs) (pop_seg res)"
      by (simp add: step_dotdot)
    also have "\<dots> = norm_segs segs (pop_seg res)" using l dd by (intro Cons.IH[OF ok]) simp
    finally show ?thesis using dd by simp
  next
    case n
    with l have "canon_norm lim i (join (seg # segs)) res =
        canon_norm lim (i + 1 + length seg) (join segs) (rev seg @ CHR ''/'' # res)"
      by (simp add: step_normal)
    also have "\<dots> = norm_segs segs (rev seg @ CHR ''/'' # res)" using l by (intro Cons.IH[OF ok]) simp
    finally show ?thesis using n by (simp add: normal_seg_def)
  qed
qed

lemma pop_seg_skip: "CHR ''/'' \<notin> set xs \<Longrightarrow> pop_seg (xs @ CHR ''/'' # R) = R"
  by (induction xs) auto

lemma pop_seg_length: "length (pop_seg res) \<le> length res"
  by (induction res) auto

lemma pop_good: "good_stack res ks \<Longrightarrow> good_stack (pop_seg res) (butlast ks)"
proof (cases ks rule: rev_cases)
  case Nil
  assume "good_stack res ks"
  with Nil show ?thesis by (simp add: good_stack_def)
next
  case (snoc ks' k)
  assume g: "good_stack res ks"
  with snoc have k: "CHR ''/'' \<notin> set (rev k)" by (auto simp: good_stack_def normal_seg_def seg_ok_def)
  from g snoc have "res = rev k @ CHR ''/'' # rev (join ks')" by (simp add: good_stack_def)
  with pop_seg_skip[OF k] have "pop_seg res = rev (join ks')" by simp
  with g snoc show ?thesis by (simp add: good_stack_def)
qed

lemma push_good: "good_stack res ks \<Longrightarrow> normal_seg seg \<Longrightarrow> good_stack (rev seg @ CHR ''/'' # res) (ks @ [seg])"
  by (simp add: good_stack_def)

lemma norm_segs_good:
  "\<forall>s\<in>set segs. seg_ok s \<Longrightarrow> good_stack res ks \<Longrightarrow>
   \<exists>ks'. (good_stack (norm_segs segs res) ks' \<or>
          (\<exists>R. good_stack R ks' \<and> norm_segs segs res = CHR ''/'' # R))"
proof (induction segs arbitrary: res ks)
  case Nil
  then show ?case by auto
next
  case (Cons seg segs)
  from Cons.prems have ok: "\<forall>s\<in>set segs. seg_ok s" and sok: "seg_ok seg" by auto
  consider (e) "seg = []" | (d) "seg = ''.''" | (dd) "seg = ''..''" | (n) "normal_seg seg"
    using sok by (auto simp: normal_seg_def)
  then show ?case
  proof cases
    case e
    show ?thesis
    proof (cases segs)
      case Nil
      with e Cons.prems(2) show ?thesis by auto
    next
      case (Cons a list)
      with e Cons.IH[OF ok Cons.prems(2)] show ?thesis by simp
    qed
  next
    case d
    with Cons.IH[OF ok Cons.prems(2)] show ?thesis by simp
  next
    case dd
    with Cons.IH[OF ok pop_good[OF Cons.prems(2)]] show ?thesis by simp
  next
    case n
    with Cons.IH[OF ok push_good[OF Cons.prems(2) n]] show ?thesis by (simp add: normal_seg_def)
  qed
qed

lemma norm_segs_length:
  "length (norm_segs segs res) \<le> length res + length (join segs)"
proof (induction segs arbitrary: res)
  case Nil
  then show ?case by simp
next
  case (Cons seg segs)
  have p: "length (norm_segs segs (pop_seg res)) \<le> length res + length (join segs)"
    using Cons.IH[of "pop_seg res"] pop_seg_length[of res] by linarith
  have q: "length (norm_segs segs (rev seg @ CHR ''/'' # res)) \<le> length res + 1 + length seg + length (join segs)"
    using Cons.IH[of "rev seg @ CHR ''/'' # res"] by simp
  have r: "length (norm_segs segs res) \<le> length res + length (join segs)" by (rule Cons.IH)
  show ?case using p q r by (auto)
qed

lemma norm_segs_normal:
  "\<forall>k\<in>set ks. normal_seg k \<Longrightarrow> norm_segs ks res = rev (join ks) @ res"
  by (induction ks arbitrary: res) (auto simp: normal_seg_def)

lemma good_nonempty:
  assumes "good_stack R ks" "ks \<noteq> []"
  shows "length R > 1 \<and> hd R \<noteq> CHR ''/''"
proof -
  from assms(2) obtain ks' k where ks: "ks = ks' @ [k]" by (cases ks rule: rev_cases) auto
  with assms(1) have k: "k \<noteq> []" "CHR ''/'' \<notin> set k" and R: "R = rev k @ CHR ''/'' # rev (join ks')"
    by (auto simp: good_stack_def normal_seg_def seg_ok_def)
  from k have "rev k \<noteq> []" "hd (rev k) \<in> set k" by (auto simp: hd_rev)
  with k R show ?thesis by (cases "rev k") auto
qed

text \<open>The shape of what the loop and the trailing-slash step leave.\<close>

lemma canon_result_shape:
  assumes ok: "\<forall>s\<in>set segs. seg_ok s"
  shows "\<exists>ks. (\<forall>k\<in>set ks. normal_seg k) \<and> length (join ks) \<le> length (join segs) \<and>
           rev (canon_fix (norm_segs segs [])) = (if ks = [] then [CHR ''/''] else join ks)"
proof -
  have g0: "good_stack [] []" by (simp add: good_stack_def)
  from norm_segs_good[OF ok g0] obtain ks where
    c: "good_stack (norm_segs segs []) ks \<or> (\<exists>R. good_stack R ks \<and> norm_segs segs [] = CHR ''/'' # R)"
    by blast
  have len: "length (norm_segs segs []) \<le> length (join segs)"
    using norm_segs_length[of segs "[]"] by simp
  from c show ?thesis
  proof
    assume g: "good_stack (norm_segs segs []) ks"
    show ?thesis
    proof (cases "ks = []")
      case True
      with g have "norm_segs segs [] = []" by (simp add: good_stack_def)
      then have "rev (canon_fix (norm_segs segs [])) = [CHR ''/'']" by (simp add: canon_fix_def)
      with True show ?thesis by (intro exI[of _ "[]"]) simp
    next
      case False
      from good_nonempty[OF g False] have "canon_fix (norm_segs segs []) = norm_segs segs []"
        by (auto simp: canon_fix_def)
      moreover from g have r: "norm_segs segs [] = rev (join ks)" by (simp add: good_stack_def)
      ultimately have "rev (canon_fix (norm_segs segs [])) = join ks" by simp
      moreover from r len have "length (join ks) \<le> length (join segs)" by simp
      ultimately show ?thesis using g False by (intro exI[of _ ks]) (simp add: good_stack_def)
    qed
  next
    assume "\<exists>R. good_stack R ks \<and> norm_segs segs [] = CHR ''/'' # R"
    then obtain R where g: "good_stack R ks" and e: "norm_segs segs [] = CHR ''/'' # R" by blast
    show ?thesis
    proof (cases "ks = []")
      case True
      with g have "R = []" by (simp add: good_stack_def)
      with e have "rev (canon_fix (norm_segs segs [])) = [CHR ''/'']" by (simp add: canon_fix_def)
      with True show ?thesis by (intro exI[of _ "[]"]) simp
    next
      case False
      from good_nonempty[OF g False] e have "canon_fix (norm_segs segs []) = R"
        by (auto simp: canon_fix_def)
      moreover from g have r: "R = rev (join ks)" by (simp add: good_stack_def)
      ultimately have "rev (canon_fix (norm_segs segs [])) = join ks" by simp
      moreover from r e len have "length (join ks) \<le> length (join segs)" by simp
      ultimately show ?thesis using g False by (intro exI[of _ ks]) (simp add: good_stack_def)
    qed
  qed
qed

lemma path_segments:
  "peek p 0 = CHR ''/'' \<Longrightarrow> NUL \<notin> set p \<Longrightarrow> \<exists>segs. p = join segs \<and> (\<forall>s\<in>set segs. seg_ok s)"
proof (induction p rule: length_induct)
  case (1 p)
  from 1(2) obtain r where p: "p = CHR ''/'' # r" by (cases p) (auto simp: peek_def)
  define seg where "seg = takeWhile (\<lambda>c. c \<noteq> CHR ''/'') r"
  define r' where "r' = dropWhile (\<lambda>c. c \<noteq> CHR ''/'') r"
  have r: "r = seg @ r'" by (simp add: seg_def r'_def)
  have sok: "seg_ok seg"
    using 1(3) p set_takeWhileD[of _ "\<lambda>c. c \<noteq> CHR ''/''" r] by (auto simp: seg_ok_def seg_def)
  show ?case
  proof (cases r')
    case Nil
    with p r sok show ?thesis by (intro exI[of _ "[seg]"]) simp
  next
    case (Cons a list)
    have "a = CHR ''/''" using Cons by (simp add: r'_def dropWhile_eq_Cons_conv)
    with Cons have h: "peek r' 0 = CHR ''/''" by simp
    have l: "length r' < length p" using p r by simp
    have n: "NUL \<notin> set r'" using 1(3) p r by auto
    from 1(1)[rule_format, OF l h n] obtain segs where "r' = join segs" "\<forall>s\<in>set segs. seg_ok s" by blast
    with p r sok show ?thesis by (intro exI[of _ "seg # segs"]) simp
  qed
qed

lemma canon_string_shape:
  assumes "peek p 0 = CHR ''/''" "NUL \<notin> set p" "length p \<le> pmax - 2"
  shows "\<exists>ks. (\<forall>k\<in>set ks. normal_seg k) \<and> length (join ks) \<le> length p \<and>
           canon_string pmax p = (if ks = [] then [CHR ''/''] else join ks)"
proof -
  from path_segments[OF assms(1,2)] obtain segs where p: "p = join segs" and ok: "\<forall>s\<in>set segs. seg_ok s"
    by blast
  have "canon_norm (pmax - 2) 0 p [] = norm_segs segs []"
    unfolding p using assms(3) p by (intro canon_norm_join[OF ok]) simp
  then have "canon_string pmax p = rev (canon_fix (norm_segs segs []))" by (simp add: canon_string_def)
  with canon_result_shape[OF ok] p show ?thesis by simp
qed

lemma canon_string_fixed:
  assumes n: "\<forall>k\<in>set ks. normal_seg k" and l: "length (join ks) \<le> pmax - 2" and pos: "0 < pmax - 2"
  shows "canon_string pmax (if ks = [] then [CHR ''/''] else join ks) = (if ks = [] then [CHR ''/''] else join ks)"
proof (cases "ks = []")
  case True
  then show ?thesis using pos by (simp add: canon_string_def step_slash_end canon_fix_def)
next
  case False
  have ok: "\<forall>s\<in>set ks. seg_ok s" using n by (simp add: normal_seg_def)
  have "canon_norm (pmax - 2) 0 (join ks) [] = norm_segs ks []"
    using l by (intro canon_norm_join[OF ok]) simp
  also have "\<dots> = rev (join ks)" using norm_segs_normal[OF n, of "[]"] by simp
  finally have e: "canon_norm (pmax - 2) 0 (join ks) [] = rev (join ks)" .
  have g: "good_stack (rev (join ks)) ks" using n by (simp add: good_stack_def)
  from good_nonempty[OF g False] have "canon_fix (rev (join ks)) = rev (join ks)"
    by (auto simp: canon_fix_def)
  with e False show ?thesis by (simp add: canon_string_def)
qed

lemma canon_string_idem:
  assumes "peek p 0 = CHR ''/''" "NUL \<notin> set p" "length p \<le> pmax - 2"
  shows "canon_string pmax (canon_string pmax p) = canon_string pmax p"
proof -
  from canon_string_shape[OF assms] obtain ks where n: "\<forall>k\<in>set ks. normal_seg k"
    and l: "length (join ks) \<le> length p"
    and e: "canon_string pmax p = (if ks = [] then [CHR ''/''] else join ks)" by blast
  from assms(1) have "p \<noteq> []" by (auto simp: peek_def)
  with assms(3) have pos: "0 < pmax - 2" by (cases p) auto
  from l assms(3) have l': "length (join ks) \<le> pmax - 2" by simp
  show ?thesis unfolding e by (rule canon_string_fixed[OF n l' pos])
qed

lemma cstr_id: "NUL \<notin> set s \<Longrightarrow> cstr s = s"
  by (auto simp: cstr_def takeWhile_eq_all_conv)

lemma cstr_no_NUL: "NUL \<notin> set (cstr s)"
  using set_takeWhileD[of NUL "\<lambda>c. c \<noteq> NUL" s] by (auto simp: cstr_def)

lemma join_no_NUL: "\<forall>s\<in>set segs. seg_ok s \<Longrightarrow> NUL \<notin> set (join segs)"
  by (induction segs) (auto simp: seg_ok_def NUL_def)

lemma canon_copy_no_NUL: "canon_copy w (cstr p) = Some c \<Longrightarrow> NUL \<notin> set c"
  using cstr_no_NUL[of p] cstr_no_NUL
  by (auto simp: canon_copy_def NUL_def split: if_splits option.splits dest!: in_set_takeD)

text \<open>
  C8 (canonicalisation idempotence), as amended.  Let \<open>c\<close> be what \<open>canonpath\<close>
  copies into \<open>path_copy\<close> for the path \<open>p\<close> (the path itself when it is absolute,
  the working directory, a slash and the path otherwise).  If \<open>c\<close> is absolute and at
  most \<open>PATH_MAX - 2\<close> bytes long, so that the normalising loop reads all of it, and
  \<open>canonpath\<close> succeeds on \<open>p\<close> with the result \<open>q\<close>, then \<open>canonpath\<close> succeeds on
  \<open>q\<close> with the same bytes \<open>q\<close>.
\<close>

theorem canonpath_idempotent:
  assumes c: "canon_copy w (cstr p) = Some c" and a: "peek c 0 = CHR ''/''"
    and l: "length c \<le> PATH_MAX w - 2" and r: "canonpath w p old = (True, q)"
  shows "canonpath w q old' = (True, q)"
proof -
  have n: "NUL \<notin> set c" by (rule canon_copy_no_NUL[OF c])
  from r c have q: "q = canon_string (PATH_MAX w) c"
    by (auto simp: canonpath_def Let_def split: option.splits)
  from canon_string_shape[OF a n l] obtain ks where ks: "\<forall>k\<in>set ks. normal_seg k"
    and lq: "length (join ks) \<le> length c"
    and e: "canon_string (PATH_MAX w) c = (if ks = [] then [CHR ''/''] else join ks)" by blast
  have qn: "NUL \<notin> set q" unfolding q e using join_no_NUL[of ks] ks by (auto simp: normal_seg_def NUL_def)
  have qa: "peek q 0 = CHR ''/''" unfolding q e by (cases ks) auto
  from a have "c \<noteq> []" by (auto simp: peek_def)
  with l have pos: "1 \<le> PATH_MAX w - 2" by (cases c) auto
  have ql: "length q \<le> PATH_MAX w - 2" unfolding q e using lq l pos by auto
  have cq: "canon_copy w (cstr q) = Some q"
    using qa ql by (simp add: cstr_id[OF qn] canon_copy_def)
  have idem: "canon_string (PATH_MAX w) q = q"
    unfolding q by (rule canon_string_idem[OF a n l])
  from r c show ?thesis
    by (auto simp: canonpath_def Let_def cq idem q[symmetric] split: option.splits)
qed

theorem canonpath_idempotent_witness:
  "canonpath demo_world ''/srv/www/dir/../index.html'' [] = (True, ''/srv/www/index.html'') \<and>
   canonpath demo_world ''/srv/www/index.html'' [] = (True, ''/srv/www/index.html'')"
proof -
  have c: "canon_copy demo_world (cstr ''/srv/www/dir/../index.html'') = Some ''/srv/www/dir/../index.html''"
    by code_simp
  have a: "peek ''/srv/www/dir/../index.html'' 0 = CHR ''/''" by simp
  have l: "length ''/srv/www/dir/../index.html'' \<le> PATH_MAX demo_world - 2"
    by (simp add: demo_world_def)
  have r: "canonpath demo_world ''/srv/www/dir/../index.html'' [] = (True, ''/srv/www/index.html'')"
    by code_simp
  from canonpath_idempotent[OF c a l r, of "[]"] r show ?thesis by simp
qed

lemma concat_replicate_join: "concat (replicate n (CHR ''/'' # s)) = join (replicate n s)"
  by (induction n) auto

lemma length_join_replicate: "length (join (replicate n s)) = n * (1 + length s)"
  by (induction n) auto

lemma canon_norm_join_rest:
  "\<forall>k\<in>set ks. normal_seg k \<Longrightarrow> i + length (join ks) \<le> lim \<Longrightarrow>
   canon_norm lim i (join ks @ rest) res = canon_norm lim (i + length (join ks)) rest (rev (join ks) @ res)"
proof (induction ks arbitrary: i res)
  case Nil
  then show ?case by simp
next
  case (Cons k ks)
  from Cons.prems have n: "normal_seg k" and ns: "\<forall>k\<in>set ks. normal_seg k"
    and l: "i + 1 + length k \<le> lim" and l2: "(i + 1 + length k) + length (join ks) \<le> lim" by auto
  have "canon_norm lim i (join (k # ks) @ rest) res =
        canon_norm lim (i + 1 + length k) (join ks @ rest) (rev k @ CHR ''/'' # res)"
    using step_normal[OF n l, of "join ks @ rest" res] by simp
  also have "\<dots> = canon_norm lim (i + 1 + length k + length (join ks)) rest
                     (rev (join ks) @ rev k @ CHR ''/'' # res)"
    by (rule Cons.IH[OF ns l2])
  finally show ?case by (simp add: add.assoc)
qed

lemma deep_dir_join: "deep_dir = join (replicate 2046 ''a'')"
  unfolding deep_dir_def by (rule concat_replicate_join)

lemma deep_dir_length: "length deep_dir = 4092"
proof -
  have "length deep_dir = 2046 * (1 + length ''a'')"
    by (simp only: deep_dir_join length_join_replicate)
  then show ?thesis by simp
qed

lemma deep_segs_normal: "\<forall>k\<in>set (replicate n ''a''). normal_seg k"
  by (auto simp: normal_seg_def seg_ok_def NUL_def)

lemma deep_dir_no_NUL: "NUL \<notin> set deep_dir"
  unfolding deep_dir_join using deep_segs_normal[of 2046]
  by (intro join_no_NUL) (simp only: normal_seg_def, blast)

lemma deep_first: "canon_string 4096 deep_path = deep_dir @ ''/.''"
proof -
  have "canon_norm 4094 0 (join (replicate 2046 ''a'') @ ''/.x'') [] =
        canon_norm 4094 (0 + length (join (replicate 2046 ''a''))) ''/.x'' (rev (join (replicate 2046 ''a'')) @ [])"
    by (rule canon_norm_join_rest[OF deep_segs_normal]) (simp only: length_join_replicate, simp)
  also have "\<dots> = canon_norm 4094 4092 ''/.x'' (rev deep_dir)"
    using deep_dir_length by (simp only: deep_dir_join[symmetric]) simp
  also have "\<dots> = canon_norm 4094 4093 ''.x'' (CHR ''/'' # rev deep_dir)"
    by (subst canon_norm.simps) (simp add: NUL_def)
  also have "\<dots> = canon_norm 4094 4094 ''x'' (CHR ''.'' # CHR ''/'' # rev deep_dir)"
    by (subst canon_norm.simps) (simp add: NUL_def)
  also have "\<dots> = CHR ''.'' # CHR ''/'' # rev deep_dir"
    by (subst canon_norm.simps) simp
  finally have "canon_norm 4094 0 (deep_dir @ ''/.x'') [] = CHR ''.'' # CHR ''/'' # rev deep_dir"
    by (simp only: deep_dir_join[symmetric])
  then show ?thesis by (simp add: canon_string_def deep_path_def canon_fix_def)
qed

lemma deep_second: "canon_string 4096 (deep_dir @ ''/.'') = deep_dir"
proof -
  have "canon_norm 4094 0 (join (replicate 2046 ''a'') @ ''/.'') [] =
        canon_norm 4094 (0 + length (join (replicate 2046 ''a''))) ''/.'' (rev (join (replicate 2046 ''a'')) @ [])"
    by (rule canon_norm_join_rest[OF deep_segs_normal]) (simp only: length_join_replicate, simp)
  also have "\<dots> = canon_norm 4094 4092 ''/.'' (rev deep_dir)"
    using deep_dir_length by (simp only: deep_dir_join[symmetric]) simp
  also have "\<dots> = rev deep_dir"
    by (subst canon_norm.simps) (simp add: NUL_def)
  finally have e: "canon_norm 4094 0 (deep_dir @ ''/.'') [] = rev deep_dir"
    by (simp only: deep_dir_join[symmetric])
  have g: "good_stack (rev deep_dir) (replicate 2046 ''a'')"
    using deep_segs_normal[of 2046] by (simp only: good_stack_def deep_dir_join) 
  have "replicate 2046 ''a'' \<noteq> []" by (simp only: replicate_empty)
  from good_nonempty[OF g this] have "canon_fix (rev deep_dir) = rev deep_dir"
    by (auto simp: canon_fix_def)
  with e show ?thesis by (simp add: canon_string_def)
qed

text \<open>
  C8 as stated fails for a path of \<open>PATH_MAX - 1\<close> bytes: the loop stops two bytes
  before the end of \<open>path_copy\<close>, so \<open>deep_path\<close> canonicalises to \<open>deep_dir\<close>
  followed by \<open>/.\<close>, and canonicalising that result gives \<open>deep_dir\<close>.
\<close>

theorem canonpath_deep_counterexample:
  "canonpath deep_world deep_path [] = (True, deep_dir @ ''/.'') \<and>
   canonpath deep_world (deep_dir @ ''/.'') [] = (True, deep_dir) \<and>
   deep_dir @ ''/.'' \<noteq> deep_dir"
proof -
  have pm: "PATH_MAX deep_world = 4096" by (simp add: deep_world_def demo_world_def)
  have st: "\<And>p. p \<noteq> [] \<Longrightarrow> c_stat deep_world p = Some dir_stat"
    by (simp add: c_stat_def deep_world_def)
  have rd: "has_bit (st_mode dir_stat) S_IROTH" by (simp add: has_bit_def dir_stat_def S_IROTH_def)
  have n1: "NUL \<notin> set deep_path" using deep_dir_no_NUL by (simp add: deep_path_def NUL_def)
  have n2: "NUL \<notin> set (deep_dir @ ''/.'')" using deep_dir_no_NUL by (simp add: NUL_def)
  have h: "peek deep_dir 0 = CHR ''/''"
    by (simp only: deep_dir_def) (simp add: numeral_eq_Suc del: replicate.simps(2) add: replicate.simps(2)[of _ "''/a''"])
  have h1: "peek deep_path 0 = CHR ''/''" using h deep_dir_length by (simp add: deep_path_def peek_def nth_append)
  have h2: "peek (deep_dir @ ''/.'') 0 = CHR ''/''" using h deep_dir_length by (simp add: peek_def nth_append)
  have lp: "length deep_path = 4095" using deep_dir_length by (simp add: deep_path_def)
  have c1: "canon_copy deep_world (cstr deep_path) = Some deep_path"
    by (simp add: cstr_id[OF n1] canon_copy_def pm h1 lp)
  have c2: "canon_copy deep_world (cstr (deep_dir @ ''/.'')) = Some (deep_dir @ ''/.'')"
    using deep_dir_length by (simp add: cstr_id[OF n2] canon_copy_def pm h2)
  have a: "canonpath deep_world deep_path [] = (True, deep_dir @ ''/.'')"
    using rd by (simp add: canonpath_def c1 pm deep_first st)
  have d: "deep_dir \<noteq> []" using deep_dir_length by auto
  have b: "canonpath deep_world (deep_dir @ ''/.'') [] = (True, deep_dir)"
    using rd d by (simp add: canonpath_def c2 pm deep_second st)
  from a b show ?thesis by simp
qed

section \<open>Properties of the MIME lookup\<close>

lemma mime_scan_iff:
  "n \<le> length path \<Longrightarrow>
   mime_scan path extn n = (\<exists>e<n. is_anchor (path ! e) \<and> strcasecmp0 (drop (Suc e) path) extn)"
proof (induction n)
  case 0
  then show ?case by simp
next
  case (Suc n)
  then have ih: "mime_scan path extn n = (\<exists>e<n. is_anchor (path ! e) \<and> strcasecmp0 (drop (Suc e) path) extn)"
    by simp
  show ?case unfolding mime_scan.simps ih by (auto simp: is_anchor_def less_Suc_eq)
qed

lemma mime_scan_anchored: "mime_scan path extn (length path) = anchored_match path extn"
  by (simp add: mime_scan_iff anchored_match_def list_ex_iff Bex_def)

lemma mime_lookup_find:
  "uh_file_mime_lookup tbl path =
     (case find (\<lambda>(extn, mime). anchored_match path extn) tbl of
        None \<Rightarrow> ''application/octet-stream''
      | Some (extn, mime) \<Rightarrow> mime)"
  by (induction tbl) (auto simp: mime_scan_anchored)

lemma anchored_match_split:
  "anchored_match path extn =
     (\<exists>pre a suf. path = pre @ a # suf \<and> is_anchor a \<and> strcasecmp0 suf extn)"
proof
  assume "anchored_match path extn"
  then obtain e where e: "e < length path" "is_anchor (path ! e)" "strcasecmp0 (drop (Suc e) path) extn"
    by (auto simp: anchored_match_def list_ex_iff)
  from e(1) have "path = take e path @ path ! e # drop (Suc e) path" by (simp add: id_take_nth_drop)
  with e show "\<exists>pre a suf. path = pre @ a # suf \<and> is_anchor a \<and> strcasecmp0 suf extn" by blast
next
  assume "\<exists>pre a suf. path = pre @ a # suf \<and> is_anchor a \<and> strcasecmp0 suf extn"
  then obtain pre a suf where p: "path = pre @ a # suf" "is_anchor a" "strcasecmp0 suf extn" by blast
  then have "length pre < length path" "is_anchor (path ! length pre)"
    "strcasecmp0 (drop (Suc (length pre)) path) extn" by auto
  then show "anchored_match path extn" by (auto simp: anchored_match_def list_ex_iff)
qed

lemma tolower_anchor_all: "\<forall>c::char. is_anchor (tolower_c c) = is_anchor c"
  by code_simp

lemma tolower_anchor: "is_anchor (tolower_c c) = is_anchor c"
  using tolower_anchor_all by blast

lemma strcasecmp0_anchor_free:
  assumes "strcasecmp0 suf extn" "\<forall>c\<in>set extn. \<not> is_anchor c"
  shows "\<forall>c\<in>set suf. \<not> is_anchor c"
proof
  fix c assume c: "c \<in> set suf"
  from assms(1) have "set (map tolower_c suf) = set (map tolower_c extn)" by (simp add: strcasecmp0_def)
  with c have "tolower_c c \<in> tolower_c ` set extn" by auto
  then obtain x where x: "x \<in> set extn" "tolower_c x = tolower_c c" by auto
  from x(1) assms(2) have "\<not> is_anchor (tolower_c x)" by (simp add: tolower_anchor)
  with x(2) show "\<not> is_anchor c" by (simp add: tolower_anchor)
qed

lemma last_extension_split:
  assumes "path = pre @ a # suf" "is_anchor a" "\<forall>c\<in>set suf. \<not> is_anchor c"
  shows "last_extension path = Some suf"
proof -
  have "takeWhile (\<lambda>c. \<not> is_anchor c) (rev suf @ a # rev pre) = rev suf"
    using assms(2,3) by (subst takeWhile_append2) auto
  with assms show ?thesis by (auto simp: last_extension_def)
qed

lemma last_extension_Some:
  assumes "last_extension path = Some ext"
  shows "\<exists>pre a. path = pre @ a # ext \<and> is_anchor a \<and> (\<forall>c\<in>set ext. \<not> is_anchor c)"
proof -
  from assms have ex: "\<exists>c\<in>set path. is_anchor c"
    and ext: "ext = rev (takeWhile (\<lambda>c. \<not> is_anchor c) (rev path))"
    by (auto simp: last_extension_def split: if_splits)
  from ex have "dropWhile (\<lambda>c. \<not> is_anchor c) (rev path) \<noteq> []" by (auto simp: dropWhile_eq_Nil_conv)
  then obtain a rest where d: "dropWhile (\<lambda>c. \<not> is_anchor c) (rev path) = a # rest"
    by (cases "dropWhile (\<lambda>c. \<not> is_anchor c) (rev path)") auto
  then have a: "is_anchor a" by (simp add: dropWhile_eq_Cons_conv)
  have "rev path = takeWhile (\<lambda>c. \<not> is_anchor c) (rev path) @ a # rest"
    using takeWhile_dropWhile_id[of "\<lambda>c. \<not> is_anchor c" "rev path"] d by simp
  then have "rev (rev path) = rev (takeWhile (\<lambda>c. \<not> is_anchor c) (rev path) @ a # rest)" by simp
  then have "path = rev rest @ a # ext" using ext by simp
  moreover have "\<forall>c\<in>set ext. \<not> is_anchor c"
    unfolding ext using set_takeWhileD[of _ "\<lambda>c. \<not> is_anchor c" "rev path"] by auto
  ultimately show ?thesis using a by blast
qed

lemma last_extension_None: "last_extension path = None \<Longrightarrow> \<not> anchored_match path extn"
  by (auto simp: last_extension_def anchored_match_split split: if_splits)

lemma anchored_match_last:
  assumes "\<forall>c\<in>set extn. \<not> is_anchor c" "last_extension path = Some ext"
  shows "anchored_match path extn = strcasecmp0 ext extn"
proof
  assume "anchored_match path extn"
  then obtain pre a suf where p: "path = pre @ a # suf" "is_anchor a" "strcasecmp0 suf extn"
    unfolding anchored_match_split by blast
  from last_extension_split[OF p(1,2) strcasecmp0_anchor_free[OF p(3) assms(1)]] assms(2) p(3)
  show "strcasecmp0 ext extn" by simp
next
  assume s: "strcasecmp0 ext extn"
  from last_extension_Some[OF assms(2)] s show "anchored_match path extn"
    unfolding anchored_match_split by blast
qed

text \<open>
  C9 (MIME lookup rule), as amended.  The Content-Type chosen by
  \<open>uh_file_mime_lookup\<close> is that of the first table entry, in table order, whose
  extension equals without regard to case the whole rest of the path after some \<open>.\<close> or
  \<open>/\<close> (any of them, not only the last); it is \<open>application/octet-stream\<close> when no
  entry matches.  For a table whose extensions contain neither \<open>.\<close> nor \<open>/\<close> this is
  the lookup of the text after the last \<open>.\<close> or \<open>/\<close> of the path.
\<close>

theorem mime_lookup_rule:
  "uh_file_mime_lookup tbl path =
     (case find (\<lambda>(extn, mime). anchored_match path extn) tbl of
        None \<Rightarrow> ''application/octet-stream''
      | Some (extn, mime) \<Rightarrow> mime)
   \<and> ((\<forall>(extn, mime)\<in>set tbl. \<forall>c\<in>set extn. \<not> is_anchor c) \<longrightarrow>
        uh_file_mime_lookup tbl path = mime_by_last_extension tbl path)"
proof (intro conjI impI)
  show "uh_file_mime_lookup tbl path =
     (case find (\<lambda>(extn, mime). anchored_match path extn) tbl of
        None \<Rightarrow> ''application/octet-stream''
      | Some (extn, mime) \<Rightarrow> mime)" by (rule mime_lookup_find)
next
  assume af: "\<forall>(extn, mime)\<in>set tbl. \<forall>c\<in>set extn. \<not> is_anchor c"
  show "uh_file_mime_lookup tbl path = mime_by_last_extension tbl path"
  proof (cases "last_extension path")
    case None
    then have "find (\<lambda>(extn, mime). anchored_match path extn) tbl = None"
      by (auto simp: find_None_iff dest: last_extension_None)
    with None show ?thesis by (simp add: mime_lookup_find mime_by_last_extension_def)
  next
    case (Some ext)
    have "find (\<lambda>(extn, mime). anchored_match path extn) tbl =
          find (\<lambda>(extn, mime). strcasecmp0 ext extn) tbl"
      using af by (intro find_cong) (auto simp: anchored_match_last[OF _ Some])
    with Some show ?thesis by (simp add: mime_lookup_find mime_by_last_extension_def)
  qed
qed

theorem mime_lookup_rule_witness:
  "uh_file_mime_lookup [(''htm'', ''text/html''), (''html'', ''text/html''), (''png'', ''image/png'')]
     ''/srv/www/Index.HTML'' = ''text/html'' \<and>
   mime_by_last_extension [(''htm'', ''text/html''), (''html'', ''text/html''), (''png'', ''image/png'')]
     ''/srv/www/Index.HTML'' = ''text/html''"
proof -
  let ?tbl = "[(''htm'', ''text/html''), (''html'', ''text/html''), (''png'', ''image/png'')]"
  have af: "\<forall>(extn, mime)\<in>set ?tbl. \<forall>c\<in>set extn. \<not> is_anchor c" by code_simp
  have v: "mime_by_last_extension ?tbl ''/srv/www/Index.HTML'' = ''text/html''" by code_simp
  from mp[OF conjunct2[OF mime_lookup_rule[of ?tbl "''/srv/www/Index.HTML''"]] af] v
  show ?thesis by simp
qed

text \<open>
  C9 as stated fails on a table with an extension of two parts: the scan does not stop
  at the last \<open>.\<close>, and the first entry of the table wins, although the text after the
  last \<open>.\<close> is \<open>gz\<close>.
\<close>

theorem mime_lookup_tar_gz_counterexample:
  "uh_file_mime_lookup
     [(''tar.gz'', ''application/x-compressed-tar''), (''gz'', ''application/x-gzip'')]
     ''/a.tar.gz'' = ''application/x-compressed-tar'' \<and>
   mime_by_last_extension
     [(''tar.gz'', ''application/x-compressed-tar''), (''gz'', ''application/x-gzip'')]
     ''/a.tar.gz'' = ''application/x-gzip''"
  by code_simp

section \<open>Properties of the authentication check\<close>








section \<open>Properties of the path lookup\<close>
















section \<open>Properties of the file handler\<close>

lemma emit_simps [simp]:
  "cl_wire (emit cl s) = cl_wire cl @ s"
  "cl_request (emit cl s) = cl_request cl"
  "cl_conf (emit cl s) = cl_conf cl"
  "cl_net (emit cl s) = cl_net cl"
  "healthy (emit cl s) = healthy cl"
  by (simp_all add: emit_def healthy_def)

lemma tcp_send_healthy: "healthy cl \<Longrightarrow> uh_tcp_send cl buf = (int (length buf), emit cl buf)"
  by (simp add: uh_tcp_send_def healthy_def emit_def)

lemma sendf_healthy:
  "healthy cl \<Longrightarrow> s \<noteq> [] \<Longrightarrow> length s < UH_LIMIT_MSGHEAD w \<Longrightarrow>
   uh_http_sendf w cl None s = (0, emit cl s)"
  by (simp add: uh_http_sendf_def c_snprintf_def buf_read_def tcp_send_healthy)


lemma send_healthy:
  "healthy cl \<Longrightarrow> s \<noteq> [] \<Longrightarrow> NUL \<notin> set s \<Longrightarrow>
   uh_http_send w cl None s (- 1) = (0, emit cl s)"
  by (simp add: uh_http_send_def cstr_id tcp_send_healthy)

lemma ensure_ok [simp]: "ensure (0, cl) k = k cl"
  by (simp add: ensure_def)

lemma mktag_length: "length (uh_file_mktag s) \<le> 127"
  by (simp add: uh_file_mktag_def c_snprintf_def)

lemma unix2date_length: "length (uh_file_unix2date w t) \<le> 127"
  by (simp add: uh_file_unix2date_def)

lemma http_versions_length [simp]: "length (http_versions v) = 8"
  by (cases v) simp_all

lemma CRLF_length [simp]: "length CRLF = 2"
  by (simp add: CRLF_def)

lemma CRLF_no_NUL [simp]: "NUL \<notin> set CRLF" "CRLF \<noteq> []"
  by (simp_all add: CRLF_def CR_def LF_def NUL_def)

lemma ok_hdrs_healthy:
  assumes h: "healthy cl" and l: "256 \<le> UH_LIMIT_MSGHEAD w"
  shows "uh_file_response_ok_hdrs w cl (Some s) =
           (0, emit (emit (emit (emit cl (''Connection: close'' @ CRLF))
                 (''ETag: '' @ uh_file_mktag s @ CRLF))
                 (''Last-Modified: '' @ uh_file_unix2date w (st_mtime s) @ CRLF))
                 (''Date: '' @ uh_file_unix2date w (w_time w) @ CRLF))"
    and "uh_file_response_ok_hdrs w cl None =
           (0, emit (emit cl (''Connection: close'' @ CRLF))
                 (''Date: '' @ uh_file_unix2date w (w_time w) @ CRLF))"
  using h l mktag_length[of s] unix2date_length[of w "st_mtime s"] unix2date_length[of w "w_time w"]
  by (simp_all add: uh_file_response_ok_hdrs_def sendf_healthy)

lemma wire_ok_hdrs:
  "cl_wire (emit (emit (emit (emit cl (''Connection: close'' @ CRLF))
                 (''ETag: '' @ uh_file_mktag s @ CRLF))
                 (''Last-Modified: '' @ uh_file_unix2date w (st_mtime s) @ CRLF))
                 (''Date: '' @ uh_file_unix2date w (w_time w) @ CRLF)) = cl_wire cl @ ok_headers w s"
  by (simp add: ok_headers_def)

lemma response_304_healthy:
  assumes h: "healthy cl" and l: "256 \<le> UH_LIMIT_MSGHEAD w"
  shows "\<exists>cl'. uh_file_response_304 w cl (Some s) = (0, cl') \<and> healthy cl' \<and>
           cl_request cl' = cl_request cl \<and>
           cl_wire cl' = cl_wire cl @ status_line cl '' 304 Not Modified'' @ ok_headers w s"
proof -
  let ?c1 = "emit cl (http_versions (rq_version (cl_request cl)) @ '' 304 Not Modified'' @ CRLF)"
  have a: "uh_http_sendf w cl None (http_versions (rq_version (cl_request cl)) @ '' 304 Not Modified'' @ CRLF) = (0, ?c1)"
    using h l by (intro sendf_healthy) simp_all
  have h1: "healthy ?c1" using h by simp
  show ?thesis
    unfolding uh_file_response_304_def a ensure_ok ok_hdrs_healthy(1)[OF h1 l]
    using h by (simp add: ok_headers_def status_line_def)
qed

lemma response_200_healthy:
  assumes h: "healthy cl" and l: "256 \<le> UH_LIMIT_MSGHEAD w"
  shows "\<exists>cl'. uh_file_response_200 w cl (Some s) = (0, cl') \<and> healthy cl' \<and>
           cl_request cl' = cl_request cl \<and>
           cl_wire cl' = cl_wire cl @ status_line cl '' 200 OK'' @ ok_headers w s"
    and "\<exists>cl'. uh_file_response_200 w cl None = (0, cl') \<and> healthy cl' \<and>
           cl_request cl' = cl_request cl \<and> cl_conf cl' = cl_conf cl \<and>
           cl_wire cl' = cl_wire cl @ status_line cl '' 200 OK'' @ dir_headers w"
proof -
  let ?c1 = "emit cl (http_versions (rq_version (cl_request cl)) @ '' 200 OK'' @ CRLF)"
  have a: "uh_http_sendf w cl None (http_versions (rq_version (cl_request cl)) @ '' 200 OK'' @ CRLF) = (0, ?c1)"
    using h l by (intro sendf_healthy) simp_all
  have h1: "healthy ?c1" using h by simp
  show "\<exists>cl'. uh_file_response_200 w cl (Some s) = (0, cl') \<and> healthy cl' \<and>
           cl_request cl' = cl_request cl \<and>
           cl_wire cl' = cl_wire cl @ status_line cl '' 200 OK'' @ ok_headers w s"
    unfolding uh_file_response_200_def a ensure_ok ok_hdrs_healthy(1)[OF h1 l]
    using h by (simp add: ok_headers_def status_line_def)
  show "\<exists>cl'. uh_file_response_200 w cl None = (0, cl') \<and> healthy cl' \<and>
           cl_request cl' = cl_request cl \<and> cl_conf cl' = cl_conf cl \<and>
           cl_wire cl' = cl_wire cl @ status_line cl '' 200 OK'' @ dir_headers w"
    unfolding uh_file_response_200_def a ensure_ok ok_hdrs_healthy(2)[OF h1 l]
    using h by (simp add: dir_headers_def status_line_def)
qed

lemma response_412_healthy:
  assumes h: "healthy cl" and l: "256 \<le> UH_LIMIT_MSGHEAD w"
  shows "\<exists>cl'. uh_file_response_412 w cl = (0, cl') \<and> healthy cl' \<and>
           cl_request cl' = cl_request cl \<and>
           cl_wire cl' = cl_wire cl @ status_line cl '' 412 Precondition Failed'' @ ''Connection: close'' @ CRLF"
proof -
  have "uh_file_response_412 w cl =
        (0, emit cl (http_versions (rq_version (cl_request cl)) @ '' 412 Precondition Failed'' @ CRLF @
               ''Connection: close'' @ CRLF))"
    unfolding uh_file_response_412_def using h l by (intro sendf_healthy) simp_all
  then show ?thesis using h by (simp add: status_line_def)
qed

lemma precond_step_skip [simp]: "precond_step f s (False, 0, cl) = (False, 0, cl)"
  by (simp add: precond_step_def)

lemma precond_step_run: "precond_step f s (False, 1, cl) = (case f cl s of (r, ok', cl') \<Rightarrow> (r < 0, ok', cl'))"
  by (simp add: precond_step_def)

lemma send_304:
  assumes "healthy cl" "256 \<le> UH_LIMIT_MSGHEAD w"
  obtains cl' where "uh_file_response_304 w cl (Some s) = (0, cl')" "sent cl cl' (resp_304 w cl s)"
  using response_304_healthy[OF assms, of s] by (auto simp: sent_def resp_304_def)

lemma send_412:
  assumes "healthy cl" "256 \<le> UH_LIMIT_MSGHEAD w"
  obtains cl' where "uh_file_response_412 w cl = (0, cl')" "sent cl cl' (resp_412 cl)"
  using response_412_healthy[OF assms] by (auto simp: sent_def resp_412_def)

lemma preconditions_healthy:
  assumes h: "healthy cl" and l: "256 \<le> UH_LIMIT_MSGHEAD w"
  shows "\<exists>cl'. uh_file_preconditions w cl s =
            (False, (if conditional_verdict w cl s = Pass then 1 else 0), cl') \<and>
          sent cl cl' (case conditional_verdict w cl s of
                         Pass \<Rightarrow> [] | NotModified \<Rightarrow> resp_304 w cl s | PreconditionFailed \<Rightarrow> resp_412 cl)"
proof -
  obtain c3 where c3: "uh_file_response_304 w cl (Some s) = (0, c3)" "sent cl c3 (resp_304 w cl s)"
    by (rule send_304[OF h l])
  obtain c4 where c4: "uh_file_response_412 w cl = (0, c4)" "sent cl c4 (resp_412 cl)"
    by (rule send_412[OF h l])
  have s0: "sent cl cl []" using h by (simp add: sent_def)
  let ?ims = "case uh_file_header_lookup cl ''If-Modified-Since'' of
            Some d \<Rightarrow> uh_file_date2unix w d \<ge> st_mtime s | None \<Rightarrow> False"
  let ?im = "case uh_file_header_lookup cl ''If-Match'' of
                 Some h \<Rightarrow> \<not> tag_loop (uh_file_mktag s) h 0 0 | None \<Rightarrow> False"
  let ?ir = "uh_file_header_lookup cl ''If-Range'' \<noteq> None"
  let ?ius = "case uh_file_header_lookup cl ''If-Unmodified-Since'' of
                 Some d \<Rightarrow> uh_file_date2unix w d \<le> st_mtime s | None \<Rightarrow> False"
  let ?inm = "case uh_file_header_lookup cl ''If-None-Match'' of
                 Some h \<Rightarrow> tag_loop (uh_file_mktag s) h 0 0 | None \<Rightarrow> False"
  have e1: "uh_file_if_modified_since w cl s = (if ?ims then (0, 0, c3) else (1, 1, cl))"
    by (simp add: uh_file_if_modified_since_def c3 split: option.splits)
  have e2: "uh_file_if_match w cl s = (if ?im then (0, 0, c4) else (1, 1, cl))"
    by (simp add: uh_file_if_match_def c4 split: option.splits)
  have e3: "uh_file_if_range w cl s = (if ?ir then (0, 0, c4) else (1, 1, cl))"
    by (simp add: uh_file_if_range_def c4 split: option.splits)
  have e4: "uh_file_if_unmodified_since w cl s = (if ?ius then (0, 0, c4) else (1, 1, cl))"
    by (simp add: uh_file_if_unmodified_since_def c4 split: option.splits)
  have e5: "uh_file_if_none_match w cl s =
      (if ?inm then (if rq_method (cl_request cl) = UH_HTTP_MSG_GET \<or>
               rq_method (cl_request cl) = UH_HTTP_MSG_HEAD then (0, 0, c3) else (0, 0, c4))
       else (1, 1, cl))"
    by (simp add: uh_file_if_none_match_def c3 c4 split: option.splits)
  show ?thesis
  proof (cases ?ims)
    case True
    then have "uh_file_preconditions w cl s = (False, 0, c3)"
      by (simp add: uh_file_preconditions_def precond_step_run e1)
    moreover from True have "conditional_verdict w cl s = NotModified"
      by (simp add: conditional_verdict_def)
    ultimately show ?thesis using c3(2) by simp
  next
    case f1: False
    show ?thesis
    proof (cases ?im)
      case True
      with f1 have "uh_file_preconditions w cl s = (False, 0, c4)"
        by (simp add: uh_file_preconditions_def precond_step_run e1 e2)
      moreover from f1 True have "conditional_verdict w cl s = PreconditionFailed"
        by (simp add: conditional_verdict_def)
      ultimately show ?thesis using c4(2) by simp
    next
      case f2: False
      show ?thesis
      proof (cases ?ir)
        case True
        with f1 f2 have "uh_file_preconditions w cl s = (False, 0, c4)"
          by (simp add: uh_file_preconditions_def precond_step_run e1 e2 e3)
        moreover from f1 f2 True have "conditional_verdict w cl s = PreconditionFailed"
          by (simp add: conditional_verdict_def)
        ultimately show ?thesis using c4(2) by simp
      next
        case f3: False
        show ?thesis
        proof (cases ?ius)
          case True
          with f1 f2 f3 have "uh_file_preconditions w cl s = (False, 0, c4)"
            by (simp add: uh_file_preconditions_def precond_step_run e1 e2 e3 e4)
          moreover from f1 f2 f3 True have "conditional_verdict w cl s = PreconditionFailed"
            by (simp add: conditional_verdict_def)
          ultimately show ?thesis using c4(2) by simp
        next
          case f4: False
          show ?thesis
          proof (cases ?inm)
            case False
            with f1 f2 f3 f4 have "uh_file_preconditions w cl s = (False, 1, cl)"
              by (simp add: uh_file_preconditions_def precond_step_run e1 e2 e3 e4 e5)
            moreover from f1 f2 f3 f4 False have "conditional_verdict w cl s = Pass"
              by (simp add: conditional_verdict_def)
            ultimately show ?thesis using s0 by simp
          next
            case True
            show ?thesis
            proof (cases "rq_method (cl_request cl) = UH_HTTP_MSG_GET \<or>
               rq_method (cl_request cl) = UH_HTTP_MSG_HEAD")
              case g: True
              with f1 f2 f3 f4 True have "uh_file_preconditions w cl s = (False, 0, c3)"
                by (simp add: uh_file_preconditions_def precond_step_run e1 e2 e3 e4 e5)
              moreover from f1 f2 f3 f4 True g have "conditional_verdict w cl s = NotModified"
                by (simp add: conditional_verdict_def)
              ultimately show ?thesis using c3(2) by simp
            next
              case g: False
              with f1 f2 f3 f4 True have "uh_file_preconditions w cl s = (False, 0, c4)"
                by (simp add: uh_file_preconditions_def precond_step_run e1 e2 e3 e4 e5)
              moreover from f1 f2 f3 f4 True g have "conditional_verdict w cl s = PreconditionFailed"
                by (simp add: conditional_verdict_def)
              ultimately show ?thesis using c4(2) by simp
            qed
          qed
        qed
      qed
    qed
  qed
qed

lemma extends_refl [simp]: "extends cl cl"
  by (simp add: extends_def)

lemma extends_trans: "extends a b \<Longrightarrow> extends b c \<Longrightarrow> extends a c"
  by (auto simp: extends_def)

lemma tcp_send_extends: "extends cl (snd (uh_tcp_send cl buf))"
  by (auto simp: uh_tcp_send_def extends_def split: wr.splits)

lemma ensure_extends:
  "extends cl (snd r) \<Longrightarrow> (\<And>c. extends c (snd (k c))) \<Longrightarrow> extends cl (snd (ensure r k))"
  by (auto simp: ensure_def intro: extends_trans)

lemma sendc_extends: "extends cl (snd (uh_http_sendc w cl data len))"
proof -
  have t: "\<And>c b r c'. uh_tcp_send c b = (r, c') \<Longrightarrow> extends c c'"
    using tcp_send_extends by (metis snd_conv)
  show ?thesis
    unfolding uh_http_sendc_def Let_def
    by (auto split: prod.splits dest!: t intro: extends_trans)
qed

lemma sendf_extends: "extends cl (snd (uh_http_sendf w cl req s))"
proof -
  have t: "\<And>c b r c'. uh_tcp_send c b = (r, c') \<Longrightarrow> extends c c'"
    using tcp_send_extends by (metis snd_conv)
  have u: "\<And>c d l r c'. uh_http_sendc w c d l = (r, c') \<Longrightarrow> extends c c'"
    using sendc_extends by (metis snd_conv)
  show ?thesis
    unfolding uh_http_sendf_def Let_def
    by (auto split: prod.splits dest!: t u)
qed

lemma send_extends: "extends cl (snd (uh_http_send w cl req buf len))"
proof -
  have t: "\<And>c b r c'. uh_tcp_send c b = (r, c') \<Longrightarrow> extends c c'"
    using tcp_send_extends by (metis snd_conv)
  have u: "\<And>c d l r c'. uh_http_sendc w c d l = (r, c') \<Longrightarrow> extends c c'"
    using sendc_extends by (metis snd_conv)
  show ?thesis
    unfolding uh_http_send_def Let_def
    by (auto split: prod.splits dest!: t u)
qed

lemma pump_extends: "extends cl (snd (pump w bufs cl))"
proof (induction bufs arbitrary: cl)
  case Nil
  then show ?case by simp
next
  case (Cons b bufs)
  show ?case
    by (simp del: take_eq_Nil add: send_extends ensure_extends Cons.IH)
qed

lemma list_subdirs_extends: "extends cl (snd (list_subdirs w pi base files cl))"
proof (induction files arbitrary: cl)
  case Nil
  then show ?case by simp
next
  case (Cons f files)
  show ?case
    by (auto simp: Let_def sendf_extends ensure_extends Cons.IH split: option.splits)
qed

lemma list_files_extends: "extends cl (snd (list_files w mimes pi base files cl))"
proof (induction files arbitrary: cl)
  case Nil
  then show ?case by simp
next
  case (Cons f files)
  show ?case
    by (auto simp: Let_def sendf_extends ensure_extends Cons.IH split: option.splits)
qed

lemma dirlist_extends: "extends cl (snd (uh_file_dirlist w mimes cl pi))"
  unfolding uh_file_dirlist_def Let_def
  by (intro ensure_extends sendf_extends)
     (auto split: option.splits intro!: ensure_extends list_subdirs_extends list_files_extends)

lemma file_request_regular:
  assumes h: "healthy cl" and l: "256 \<le> UH_LIMIT_MSGHEAD w"
    and reg: "has_bit (st_mode (pi_stat pi)) S_IFREG" and op: "w_open w (pi_phys pi) > 0"
  shows "case conditional_verdict w cl (pi_stat pi) of
           NotModified \<Rightarrow>
             cl_wire (uh_file_request w mimes cl pi) = cl_wire cl @ resp_304 w cl (pi_stat pi) @ CRLF
         | PreconditionFailed \<Rightarrow>
             cl_wire (uh_file_request w mimes cl pi) = cl_wire cl @ resp_412 cl @ CRLF
         | Pass \<Rightarrow>
             (\<exists>body. cl_wire (uh_file_request w mimes cl pi) =
                cl_wire cl @ status_line cl '' 200 OK'' @ ok_headers w (pi_stat pi) @ body)"
proof -
  let ?s = "pi_stat pi"
  let ?v = "conditional_verdict w cl ?s"
  from preconditions_healthy[OF h l, of ?s] obtain cl1 where
    p: "uh_file_preconditions w cl ?s = (False, (if ?v = Pass then 1 else 0), cl1)"
    and s: "sent cl cl1 (case ?v of Pass \<Rightarrow> [] | NotModified \<Rightarrow> resp_304 w cl ?s
                          | PreconditionFailed \<Rightarrow> resp_412 cl)" by blast
  from s have h1: "healthy cl1" and rq: "cl_request cl1 = cl_request cl" by (simp_all add: sent_def)
  show ?thesis
  proof (cases ?v)
    case Pass
    with s have w1: "cl_wire cl1 = cl_wire cl" by (simp add: sent_def)
    from response_200_healthy(1)[OF h1 l, of ?s] obtain cl2 where
      r: "uh_file_response_200 w cl1 (Some ?s) = (0, cl2)"
      and w2: "cl_wire cl2 = cl_wire cl1 @ status_line cl1 '' 200 OK'' @ ok_headers w ?s" by blast
    let ?rest = "\<lambda>cl. ensure (uh_http_sendf w cl None
                             (''Content-Type: '' @ uh_file_mime_lookup mimes (pi_name pi) @ CRLF)) (\<lambda>cl.
                   ensure (uh_http_sendf w cl None
                             (''Content-Length: '' @
                              fmt_i (sint (word_of_int (st_size ?s) :: 32 word)) @ CRLF)) (\<lambda>cl.
                   ensure (if above_1_0 (rq_version (cl_request cl)) \<and>
                              rq_method (cl_request cl) \<noteq> UH_HTTP_MSG_HEAD
                           then uh_http_send w cl None (''Transfer-Encoding: chunked'' @ CRLF) (- 1)
                           else (0, cl)) (\<lambda>cl.
                   ensure (uh_http_send w cl None CRLF (- 1)) (\<lambda>cl.
                   if rq_method (cl_request cl) \<noteq> UH_HTTP_MSG_HEAD then
                     ensure (pump w (w_reads w (pi_phys pi)) cl) (\<lambda>cl.
                     uh_http_send w cl (Some (cl_request cl)) [] 0)
                   else (0, cl)))))"
    have e: "extends c (snd (?rest c))" for c
      by (intro ensure_extends sendf_extends send_extends pump_extends)
         (auto intro!: ensure_extends sendf_extends send_extends pump_extends)
    have "uh_file_request w mimes cl pi = snd (?rest cl2)"
      using reg op Pass by (simp add: uh_file_request_def p r Let_def)
    with e[of cl2] obtain body where "cl_wire (uh_file_request w mimes cl pi) = cl_wire cl2 @ body"
      by (auto simp: extends_def)
    with w2 w1 rq Pass show ?thesis by (simp add: status_line_def)
  next
    case NotModified
    with s have w1: "cl_wire cl1 = cl_wire cl @ resp_304 w cl ?s" by (simp add: sent_def)
    have "uh_file_request w mimes cl pi = snd (uh_http_send w cl1 None CRLF (- 1))"
      using reg op NotModified by (simp add: uh_file_request_def p Let_def)
    also have "\<dots> = emit cl1 CRLF" using h1 by (simp add: send_healthy)
    finally show ?thesis using w1 NotModified by simp
  next
    case PreconditionFailed
    with s have w1: "cl_wire cl1 = cl_wire cl @ resp_412 cl" by (simp add: sent_def)
    have "uh_file_request w mimes cl pi = snd (uh_http_send w cl1 None CRLF (- 1))"
      using reg op PreconditionFailed by (simp add: uh_file_request_def p Let_def)
    also have "\<dots> = emit cl1 CRLF" using h1 by (simp add: send_healthy)
    finally show ?thesis using w1 PreconditionFailed by simp
  qed
qed

lemma file_request_directory:
  assumes h: "healthy cl" and l: "256 \<le> UH_LIMIT_MSGHEAD w"
    and nreg: "\<not> (has_bit (st_mode (pi_stat pi)) S_IFREG \<and> w_open w (pi_phys pi) > 0)"
    and dir: "has_bit (st_mode (pi_stat pi)) S_IFDIR" and lst: "\<not> no_dirlists (cl_conf cl)"
  shows "\<exists>body. cl_wire (uh_file_request w mimes cl pi) =
           cl_wire cl @ status_line cl '' 200 OK'' @ dir_headers w @
           (if above_1_0 (rq_version (cl_request cl)) then ''Transfer-Encoding: chunked'' @ CRLF else []) @
           ''Content-Type: text/html'' @ CRLF @ CRLF @ body"
proof -
  from response_200_healthy(2)[OF h l] obtain cl2 where
    r: "uh_file_response_200 w cl None = (0, cl2)" and h2: "healthy cl2"
    and rq: "cl_request cl2 = cl_request cl"
    and w2: "cl_wire cl2 = cl_wire cl @ status_line cl '' 200 OK'' @ dir_headers w" by blast
  let ?te = "if above_1_0 (rq_version (cl_request cl)) then ''Transfer-Encoding: chunked'' @ CRLF else []"
  have te: "uh_http_send w cl2 None (''Transfer-Encoding: chunked'' @ CRLF) (- 1) =
            (0, emit cl2 (''Transfer-Encoding: chunked'' @ CRLF))"
  proof -
    have "NUL \<notin> set ''Transfer-Encoding: chunked''" by (simp add: NUL_def)
    then show ?thesis using h2 by (intro send_healthy) simp_all
  qed
  define cl3 where "cl3 = (if above_1_0 (rq_version (cl_request cl))
                           then emit cl2 (''Transfer-Encoding: chunked'' @ CRLF) else cl2)"
  have s3: "(if above_1_0 (rq_version (cl_request cl2))
                     then uh_http_send w cl2 None (''Transfer-Encoding: chunked'' @ CRLF) (- 1)
                     else (0, cl2)) = (0, cl3)"
    unfolding te rq cl3_def by simp
  have h3: "healthy cl3" using h2 by (simp add: cl3_def)
  have w3: "cl_wire cl3 = cl_wire cl2 @ ?te" by (simp add: cl3_def)
  have s4: "uh_http_send w cl3 None (''Content-Type: text/html'' @ CRLF @ CRLF) (- 1) =
            (0, emit cl3 (''Content-Type: text/html'' @ CRLF @ CRLF))"
  proof -
    have "NUL \<notin> set ''Content-Type: text/html''" by (simp add: NUL_def)
    then show ?thesis using h3 by (intro send_healthy) simp_all
  qed
  have "uh_file_request w mimes cl pi =
        snd (uh_file_dirlist w mimes (emit cl3 (''Content-Type: text/html'' @ CRLF @ CRLF)) pi)"
    using nreg dir lst r s3 s4 by (auto simp: uh_file_request_def)
  with dirlist_extends[of "emit cl3 (''Content-Type: text/html'' @ CRLF @ CRLF)" w mimes pi]
  obtain body where "cl_wire (uh_file_request w mimes cl pi) =
      cl_wire (emit cl3 (''Content-Type: text/html'' @ CRLF @ CRLF)) @ body"
    by (auto simp: extends_def)
  with w3 w2 show ?thesis by simp
qed

text \<open>
  C2 (conditional precedence).  On a connection whose sends succeed, with a message
  buffer of at least 256 bytes, a request for a regular file that can be opened and
  whose If-Modified-Since date is not before the modification time of the file gets
  exactly one response, the 304 with the headers of an unmodified entity and nothing
  after it, whatever the other conditional headers say (so also when If-None-Match
  matches the entity tag).  And the precondition tests of the code are the table of the
  specification: the five headers are tried in the order If-Modified-Since, If-Match,
  If-Range, If-Unmodified-Since, If-None-Match, the first failure sends its response,
  304 or 412, and ends the evaluation; when no test fails nothing is sent.
\<close>

theorem conditional_precedence:
  "(healthy cl \<and> 256 \<le> UH_LIMIT_MSGHEAD w \<and>
    has_bit (st_mode (pi_stat pi)) S_IFREG \<and> 0 < w_open w (pi_phys pi) \<and>
    uh_file_header_lookup cl ''If-Modified-Since'' = Some d \<and>
    st_mtime (pi_stat pi) \<le> uh_file_date2unix w d
    \<longrightarrow> cl_wire (uh_file_request w mimes cl pi) =
          cl_wire cl @ status_line cl '' 304 Not Modified'' @ ok_headers w (pi_stat pi) @ CRLF)
   \<and> (healthy cl \<and> 256 \<le> UH_LIMIT_MSGHEAD w \<longrightarrow>
        (\<exists>cl'. uh_file_preconditions w cl s =
                 (False, (if conditional_verdict w cl s = Pass then 1 else 0), cl') \<and>
               cl_wire cl' = cl_wire cl @
                 (case conditional_verdict w cl s of
                    Pass \<Rightarrow> [] | NotModified \<Rightarrow> resp_304 w cl s | PreconditionFailed \<Rightarrow> resp_412 cl)))"
proof (intro conjI impI)
  assume a: "healthy cl \<and> 256 \<le> UH_LIMIT_MSGHEAD w \<and>
    has_bit (st_mode (pi_stat pi)) S_IFREG \<and> 0 < w_open w (pi_phys pi) \<and>
    uh_file_header_lookup cl ''If-Modified-Since'' = Some d \<and>
    st_mtime (pi_stat pi) \<le> uh_file_date2unix w d"
  then have v: "conditional_verdict w cl (pi_stat pi) = NotModified"
    by (simp add: conditional_verdict_def)
  from a have "healthy cl" "256 \<le> UH_LIMIT_MSGHEAD w" "has_bit (st_mode (pi_stat pi)) S_IFREG"
    "0 < w_open w (pi_phys pi)" by simp_all
  from file_request_regular[OF this, of mimes] v
  show "cl_wire (uh_file_request w mimes cl pi) =
          cl_wire cl @ status_line cl '' 304 Not Modified'' @ ok_headers w (pi_stat pi) @ CRLF"
    by (simp add: resp_304_def)
next
  assume "healthy cl \<and> 256 \<le> UH_LIMIT_MSGHEAD w"
  then have "healthy cl" "256 \<le> UH_LIMIT_MSGHEAD w" by simp_all
  from preconditions_healthy[OF this, of s]
  show "\<exists>cl'. uh_file_preconditions w cl s =
                 (False, (if conditional_verdict w cl s = Pass then 1 else 0), cl') \<and>
               cl_wire cl' = cl_wire cl @
                 (case conditional_verdict w cl s of
                    Pass \<Rightarrow> [] | NotModified \<Rightarrow> resp_304 w cl s | PreconditionFailed \<Rightarrow> resp_412 cl)"
    by (auto simp: sent_def)
qed

text \<open>
  The demo request with a matching If-None-Match and an If-Modified-Since equal to the
  modification time is answered by the 304 alone.
\<close>

theorem conditional_precedence_witness:
  "cl_wire (uh_file_request demo_world []
      (demo_client [(''If-None-Match'', uh_file_mktag file_stat),
                    (''If-Modified-Since'', ''Tue, 18 Aug 2020 12:00:00 GMT'')])
      (demo_pi ''/index.html''))
   = ''HTTP/1.1 304 Not Modified'' @ CRLF @
     ''Connection: close'' @ CRLF @
     ''ETag: '' @ [DQUOTE] @ ''1a-200-5f3bc2c0'' @ [DQUOTE] @ CRLF @
     ''Last-Modified: Tue, 18 Aug 2020 12:00:00 GMT'' @ CRLF @
     ''Date: Tue, 18 Aug 2020 12:34:56 GMT'' @ CRLF @ CRLF"
proof -
  let ?cl = "demo_client [(''If-None-Match'', uh_file_mktag file_stat),
                    (''If-Modified-Since'', ''Tue, 18 Aug 2020 12:00:00 GMT'')]"
  have h0: "healthy ?cl" by (simp add: healthy_def demo_client_def)
  have h1: "256 \<le> UH_LIMIT_MSGHEAD demo_world \<and>
    has_bit (st_mode (pi_stat (demo_pi ''/index.html''))) S_IFREG \<and>
    0 < w_open demo_world (pi_phys (demo_pi ''/index.html'')) \<and>
    uh_file_header_lookup ?cl ''If-Modified-Since'' = Some ''Tue, 18 Aug 2020 12:00:00 GMT'' \<and>
    st_mtime (pi_stat (demo_pi ''/index.html'')) \<le> uh_file_date2unix demo_world ''Tue, 18 Aug 2020 12:00:00 GMT''"
    by code_simp
  note h = conjI[OF h0 h1]
  have e: "cl_wire ?cl @ status_line ?cl '' 304 Not Modified'' @
             ok_headers demo_world (pi_stat (demo_pi ''/index.html'')) @ CRLF
           = ''HTTP/1.1 304 Not Modified'' @ CRLF @
     ''Connection: close'' @ CRLF @
     ''ETag: '' @ [DQUOTE] @ ''1a-200-5f3bc2c0'' @ [DQUOTE] @ CRLF @
     ''Last-Modified: Tue, 18 Aug 2020 12:00:00 GMT'' @ CRLF @
     ''Date: Tue, 18 Aug 2020 12:34:56 GMT'' @ CRLF @ CRLF"
    by code_simp
  from mp[OF conjunct1[OF conditional_precedence[of ?cl demo_world "demo_pi ''/index.html''"
        "''Tue, 18 Aug 2020 12:00:00 GMT''" "[]"]] h]
  show ?thesis unfolding e .
qed

text \<open>
  C5 (response header sets), as amended.  On a connection whose sends succeed, with a
  message buffer of at least 256 bytes: for a regular file that can be opened, the 304
  response is the status line, then Connection: close, ETag, Last-Modified and Date,
  then the empty line; the 412 response is the status line, Connection: close and the
  empty line, with no ETag, Last-Modified or Date; the 200 response starts with the
  status line and Connection: close, ETag, Last-Modified and Date.  For a directory
  that is listed, the 200 response starts with the status line, then Connection: close
  and Date only (no ETag and no Last-Modified), then Transfer-Encoding: chunked above
  HTTP/1.0, then Content-Type: text/html and the empty line.
\<close>

theorem response_header_sets:
  "(healthy cl \<and> 256 \<le> UH_LIMIT_MSGHEAD w \<and>
    has_bit (st_mode (pi_stat pi)) S_IFREG \<and> 0 < w_open w (pi_phys pi) \<longrightarrow>
      (case conditional_verdict w cl (pi_stat pi) of
         NotModified \<Rightarrow>
           cl_wire (uh_file_request w mimes cl pi) =
             cl_wire cl @ status_line cl '' 304 Not Modified'' @ ok_headers w (pi_stat pi) @ CRLF
       | PreconditionFailed \<Rightarrow>
           cl_wire (uh_file_request w mimes cl pi) =
             cl_wire cl @ status_line cl '' 412 Precondition Failed'' @ ''Connection: close'' @ CRLF @ CRLF
       | Pass \<Rightarrow>
           (\<exists>body. cl_wire (uh_file_request w mimes cl pi) =
              cl_wire cl @ status_line cl '' 200 OK'' @ ok_headers w (pi_stat pi) @ body)))
   \<and> (healthy cl \<and> 256 \<le> UH_LIMIT_MSGHEAD w \<and>
       \<not> (has_bit (st_mode (pi_stat pi)) S_IFREG \<and> 0 < w_open w (pi_phys pi)) \<and>
       has_bit (st_mode (pi_stat pi)) S_IFDIR \<and> \<not> no_dirlists (cl_conf cl) \<longrightarrow>
         (\<exists>body. cl_wire (uh_file_request w mimes cl pi) =
            cl_wire cl @ status_line cl '' 200 OK'' @ dir_headers w @
            (if above_1_0 (rq_version (cl_request cl)) then ''Transfer-Encoding: chunked'' @ CRLF else []) @
            ''Content-Type: text/html'' @ CRLF @ CRLF @ body))"
proof (intro conjI impI)
  assume "healthy cl \<and> 256 \<le> UH_LIMIT_MSGHEAD w \<and>
    has_bit (st_mode (pi_stat pi)) S_IFREG \<and> 0 < w_open w (pi_phys pi)"
  then have "healthy cl" "256 \<le> UH_LIMIT_MSGHEAD w" "has_bit (st_mode (pi_stat pi)) S_IFREG"
    "0 < w_open w (pi_phys pi)" by simp_all
  from file_request_regular[OF this, of mimes]
  show "case conditional_verdict w cl (pi_stat pi) of
         NotModified \<Rightarrow>
           cl_wire (uh_file_request w mimes cl pi) =
             cl_wire cl @ status_line cl '' 304 Not Modified'' @ ok_headers w (pi_stat pi) @ CRLF
       | PreconditionFailed \<Rightarrow>
           cl_wire (uh_file_request w mimes cl pi) =
             cl_wire cl @ status_line cl '' 412 Precondition Failed'' @ ''Connection: close'' @ CRLF @ CRLF
       | Pass \<Rightarrow>
           (\<exists>body. cl_wire (uh_file_request w mimes cl pi) =
              cl_wire cl @ status_line cl '' 200 OK'' @ ok_headers w (pi_stat pi) @ body)"
    by (cases "conditional_verdict w cl (pi_stat pi)") (simp_all add: resp_304_def resp_412_def)
next
  assume "healthy cl \<and> 256 \<le> UH_LIMIT_MSGHEAD w \<and>
       \<not> (has_bit (st_mode (pi_stat pi)) S_IFREG \<and> 0 < w_open w (pi_phys pi)) \<and>
       has_bit (st_mode (pi_stat pi)) S_IFDIR \<and> \<not> no_dirlists (cl_conf cl)"
  then have "healthy cl" "256 \<le> UH_LIMIT_MSGHEAD w"
    "\<not> (has_bit (st_mode (pi_stat pi)) S_IFREG \<and> 0 < w_open w (pi_phys pi))"
    "has_bit (st_mode (pi_stat pi)) S_IFDIR" "\<not> no_dirlists (cl_conf cl)" by simp_all
  from file_request_directory[OF this, of mimes]
  show "\<exists>body. cl_wire (uh_file_request w mimes cl pi) =
            cl_wire cl @ status_line cl '' 200 OK'' @ dir_headers w @
            (if above_1_0 (rq_version (cl_request cl)) then ''Transfer-Encoding: chunked'' @ CRLF else []) @
            ''Content-Type: text/html'' @ CRLF @ CRLF @ body" .
qed

lemma demo_dir_prefix:
  "cl_wire (demo_client []) @ status_line (demo_client []) '' 200 OK'' @ dir_headers demo_world @
     (if above_1_0 (rq_version (cl_request (demo_client []))) then ''Transfer-Encoding: chunked'' @ CRLF else []) @
     ''Content-Type: text/html'' @ CRLF @ CRLF
   = ''HTTP/1.1 200 OK'' @ CRLF @ ''Connection: close'' @ CRLF @
     ''Date: Tue, 18 Aug 2020 12:34:56 GMT'' @ CRLF @
     ''Transfer-Encoding: chunked'' @ CRLF @ ''Content-Type: text/html'' @ CRLF @ CRLF"
  by code_simp

lemma demo_dir_facts:
  "healthy (demo_client [])"
  "256 \<le> UH_LIMIT_MSGHEAD demo_world"
  "\<not> (has_bit (st_mode (pi_stat demo_dir_pi)) S_IFREG \<and> 0 < w_open demo_world (pi_phys demo_dir_pi))"
  "has_bit (st_mode (pi_stat demo_dir_pi)) S_IFDIR"
  "\<not> no_dirlists (cl_conf (demo_client []))"
  by (simp_all add: healthy_def demo_client_def demo_world_def demo_dir_pi_def dir_stat_def has_bit_def
        S_IFREG_def S_IFDIR_def demo_conf_def)

text \<open>
  The amended statement at the demo file with a failing If-Match, and at the demo
  directory.
\<close>

theorem response_header_sets_witness:
  "cl_wire (uh_file_request demo_world [] (demo_client [(''If-Match'', ''xyz'')]) (demo_pi ''/index.html''))
     = ''HTTP/1.1 412 Precondition Failed'' @ CRLF @ ''Connection: close'' @ CRLF @ CRLF \<and>
   (\<exists>body. cl_wire (uh_file_request demo_world [] (demo_client []) demo_dir_pi) =
      (''HTTP/1.1 200 OK'' @ CRLF @ ''Connection: close'' @ CRLF @
       ''Date: Tue, 18 Aug 2020 12:34:56 GMT'' @ CRLF @
       ''Transfer-Encoding: chunked'' @ CRLF @ ''Content-Type: text/html'' @ CRLF @ CRLF) @ body)"
proof -
  let ?cl = "demo_client [(''If-Match'', ''xyz'')]"
  let ?pi = "demo_pi ''/index.html''"
  have h0: "healthy ?cl" by (simp add: healthy_def demo_client_def)
  have h1: "256 \<le> UH_LIMIT_MSGHEAD demo_world \<and>
    has_bit (st_mode (pi_stat ?pi)) S_IFREG \<and> 0 < w_open demo_world (pi_phys ?pi)" by code_simp
  have v: "conditional_verdict demo_world ?cl (pi_stat ?pi) = PreconditionFailed" by code_simp
  have e: "cl_wire ?cl @ status_line ?cl '' 412 Precondition Failed'' @ ''Connection: close'' @ CRLF @ CRLF
        = ''HTTP/1.1 412 Precondition Failed'' @ CRLF @ ''Connection: close'' @ CRLF @ CRLF" by code_simp
  note t = response_header_sets[of ?cl demo_world ?pi "[]"]
  from mp[OF conjunct1[OF t] conjI[OF h0 h1]]
  have a: "cl_wire (uh_file_request demo_world [] ?cl ?pi)
     = ''HTTP/1.1 412 Precondition Failed'' @ CRLF @ ''Connection: close'' @ CRLF @ CRLF"
    unfolding v verdict.case e .
  note g = conjI[OF demo_dir_facts(1) conjI[OF demo_dir_facts(2) conjI[OF demo_dir_facts(3)
             conjI[OF demo_dir_facts(4) demo_dir_facts(5)]]]]
  note u = response_header_sets[of "demo_client []" demo_world demo_dir_pi "[]"]
  from mp[OF conjunct2[OF u] g] obtain body where
    "cl_wire (uh_file_request demo_world [] (demo_client []) demo_dir_pi) =
       cl_wire (demo_client []) @ status_line (demo_client []) '' 200 OK'' @ dir_headers demo_world @
            (if above_1_0 (rq_version (cl_request (demo_client []))) then ''Transfer-Encoding: chunked'' @ CRLF else []) @
            ''Content-Type: text/html'' @ CRLF @ CRLF @ body"
    by blast
  then have "cl_wire (uh_file_request demo_world [] (demo_client []) demo_dir_pi) =
       (cl_wire (demo_client []) @ status_line (demo_client []) '' 200 OK'' @ dir_headers demo_world @
            (if above_1_0 (rq_version (cl_request (demo_client []))) then ''Transfer-Encoding: chunked'' @ CRLF else []) @
            ''Content-Type: text/html'' @ CRLF @ CRLF) @ body"
    by (simp only: append_assoc)
  then have b: "\<exists>body. cl_wire (uh_file_request demo_world [] (demo_client []) demo_dir_pi) =
      (''HTTP/1.1 200 OK'' @ CRLF @ ''Connection: close'' @ CRLF @
      ''Date: Tue, 18 Aug 2020 12:34:56 GMT'' @ CRLF @
      ''Transfer-Encoding: chunked'' @ CRLF @ ''Content-Type: text/html'' @ CRLF @ CRLF) @ body"
    unfolding demo_dir_prefix by blast
  from a b show ?thesis by blast
qed

text \<open>
  C5 as stated fails: the listing of the demo directory is a 200 response with the
  headers Connection and Date, and with neither ETag nor Last-Modified.
\<close>

theorem directory_listing_headers_counterexample:
  "take 15 (cl_wire (uh_file_request demo_world [] (demo_client []) demo_dir_pi)) = ''HTTP/1.1 200 OK'' \<and>
   has_header ''Connection'' (cl_wire (uh_file_request demo_world [] (demo_client []) demo_dir_pi)) \<and>
   has_header ''Date'' (cl_wire (uh_file_request demo_world [] (demo_client []) demo_dir_pi)) \<and>
   \<not> has_header ''ETag'' (cl_wire (uh_file_request demo_world [] (demo_client []) demo_dir_pi)) \<and>
   \<not> has_header ''Last-Modified'' (cl_wire (uh_file_request demo_world [] (demo_client []) demo_dir_pi))"
proof -
  from file_request_directory[OF demo_dir_facts, of "[]"] obtain body where
    "cl_wire (uh_file_request demo_world [] (demo_client []) demo_dir_pi) =
       cl_wire (demo_client []) @ status_line (demo_client []) '' 200 OK'' @ dir_headers demo_world @
            (if above_1_0 (rq_version (cl_request (demo_client []))) then ''Transfer-Encoding: chunked'' @ CRLF else []) @
            ''Content-Type: text/html'' @ CRLF @ CRLF @ body"
    by blast
  then have "cl_wire (uh_file_request demo_world [] (demo_client []) demo_dir_pi) =
       (cl_wire (demo_client []) @ status_line (demo_client []) '' 200 OK'' @ dir_headers demo_world @
            (if above_1_0 (rq_version (cl_request (demo_client []))) then ''Transfer-Encoding: chunked'' @ CRLF else []) @
            ''Content-Type: text/html'' @ CRLF @ CRLF) @ body"
    by (simp only: append_assoc)
  then have w: "cl_wire (uh_file_request demo_world [] (demo_client []) demo_dir_pi) =
      (''HTTP/1.1 200 OK'' @ CRLF @ ''Connection: close'' @ CRLF @
      ''Date: Tue, 18 Aug 2020 12:34:56 GMT'' @ CRLF @
      ''Transfer-Encoding: chunked'' @ CRLF @ ''Content-Type: text/html'' @ CRLF @ CRLF) @ body"
    unfolding demo_dir_prefix .
  have hl: "header_lines ((''HTTP/1.1 200 OK'' @ CRLF @ ''Connection: close'' @ CRLF @
      ''Date: Tue, 18 Aug 2020 12:34:56 GMT'' @ CRLF @
      ''Transfer-Encoding: chunked'' @ CRLF @ ''Content-Type: text/html'' @ CRLF @ CRLF) @ body)
     = [''HTTP/1.1 200 OK'', ''Connection: close'', ''Date: Tue, 18 Aug 2020 12:34:56 GMT'',
        ''Transfer-Encoding: chunked'', ''Content-Type: text/html'']"
    by (simp add: header_lines_def CRLF_def CR_def LF_def)
  have hw: "header_lines (cl_wire (uh_file_request demo_world [] (demo_client []) demo_dir_pi))
     = [''HTTP/1.1 200 OK'', ''Connection: close'', ''Date: Tue, 18 Aug 2020 12:34:56 GMT'',
        ''Transfer-Encoding: chunked'', ''Content-Type: text/html'']"
    by (simp only: w hl)
  have t: "take 15 (cl_wire (uh_file_request demo_world [] (demo_client []) demo_dir_pi)) = ''HTTP/1.1 200 OK''"
    by (simp only: w) simp
  have c: "has_header ''Connection'' (cl_wire (uh_file_request demo_world [] (demo_client []) demo_dir_pi))"
    unfolding has_header_def hw by simp
  have d: "has_header ''Date'' (cl_wire (uh_file_request demo_world [] (demo_client []) demo_dir_pi))"
    unfolding has_header_def hw by simp
  have e: "\<not> has_header ''ETag'' (cl_wire (uh_file_request demo_world [] (demo_client []) demo_dir_pi))"
    unfolding has_header_def hw by simp
  have l: "\<not> has_header ''Last-Modified'' (cl_wire (uh_file_request demo_world [] (demo_client []) demo_dir_pi))"
    unfolding has_header_def hw by simp
  from t c d e l show ?thesis by blast
qed
end
